theory Spec2Isabelle
  imports Main "HOL-Library.AList"
begin

section \<open>The legacy (AFF4) cron scheduler of GRR\<close>

text \<open>
  A shallow embedding of \<^verbatim>\<open>grr_response_server/aff4_objects/cronjobs.py\<close>:
  the \<^verbatim>\<open>CronJob\<close> object with \<^verbatim>\<open>IsRunning\<close>, \<^verbatim>\<open>DueToRun\<close>,
  \<^verbatim>\<open>StopCurrentRun\<close>, \<^verbatim>\<open>KillOldFlows\<close> and \<^verbatim>\<open>Run\<close>, and the
  \<^verbatim>\<open>CronManager\<close> with \<^verbatim>\<open>CreateJob\<close>, \<^verbatim>\<open>ListJobs\<close>, \<^verbatim>\<open>RunOnce\<close> and
  \<^verbatim>\<open>DeleteOldRuns\<close>.

  The methods mutate \<^verbatim>\<open>self\<close>, talk to the record store, to the flow engine and to
  the statistics collector, and raise exceptions. In the model every method takes the
  object and the world and returns the outcome (\<open>Inl\<close> an exception, \<open>Inr\<close> a value)
  together with the object and the world as they are at that moment, so that what was
  written before an exception is still there, as it is in Python. The object in memory
  is the record while it is open: \<^verbatim>\<open>Set\<close> and \<^verbatim>\<open>DeleteAttribute\<close> change it,
  \<^verbatim>\<open>Flush\<close> changes nothing that the scheduler can see, and closing the object
  writes it to the store.
\<close>

subsection \<open>URNs, times and durations\<close>

text \<open>
  Modelled from the spec: the value classes of \<^verbatim>\<open>rdfvalue\<close> (\<^verbatim>\<open>RDFURN\<close>,
  \<^verbatim>\<open>RDFDatetime\<close>, \<^verbatim>\<open>Duration\<close>) are not part of the scheduler's source. A URN
  is the list of its path components below \<^verbatim>\<open>aff4:/\<close>; times and durations are
  integers on one scale (seconds), so that \<open>now - last_run_time > lifetime\<close> and
  \<open>now > Expiry(last_run_time, periodicity)\<close> read as in the specification, where
  the periodicity is the "duration between scheduled starts". In a Python condition a
  time or a duration is false exactly when it is 0, a URN never.
\<close>

type_synonym urn = "string list"
type_synonym RDFDatetime = int
type_synonym Duration = int

definition Add :: "urn \<Rightarrow> string \<Rightarrow> urn" where
  "Add u name = u @ [name]"

definition Basename :: "urn \<Rightarrow> string" where
  "Basename u = last u"

definition Expiry :: "Duration \<Rightarrow> RDFDatetime \<Rightarrow> RDFDatetime" where
  \<comment> \<open>\<^verbatim>\<open>periodicity.Expiry(base_time)\<close>: the time at which the period that began at
      \<open>base_time\<close> is over.\<close>
  "Expiry periodicity base_time = base_time + periodicity"

subsection \<open>Records of the job store\<close>

datatype Status = OK | ERROR | TIMEOUT

record FlowRunnerArgs =
  flow_name :: string
  base_session_id :: "urn option"

record HuntRunnerArgs =
  hunt_name :: string
  hunt_runner_rest :: string

record CreateGenericHuntFlowArgs =
  hunt_flow_args :: string
  hunt_flow_name :: string
  hunt_runner_args :: HuntRunnerArgs

text \<open>\<^verbatim>\<open>rdf_cronjobs.CreateCronJobArgs\<close>, the argument of \<^verbatim>\<open>CreateJob\<close>.\<close>

record CreateCronJobArgs =
  arg_flow_name :: string
  arg_flow_args :: string
  arg_hunt_runner_args :: HuntRunnerArgs
  arg_description :: string
  arg_frequency :: Duration
  arg_allow_overruns :: bool
  arg_lifetime :: Duration

text \<open>\<^verbatim>\<open>rdf_cronjobs.CreateCronJobFlowArgs\<close>, stored as \<^verbatim>\<open>CRON_ARGS\<close>.\<close>

record CreateCronJobFlowArgs =
  description :: string
  periodicity :: Duration
  flow_runner_args :: FlowRunnerArgs
  flow_args :: CreateGenericHuntFlowArgs
  allow_overruns :: bool
  lifetime :: Duration
  start_time :: RDFDatetime

text \<open>
  The \<^verbatim>\<open>CronJob\<close> object: its URN, whether it was opened with the lock, and the
  attributes of \<^verbatim>\<open>SchemaCls\<close>. An attribute that was never set reads as \<open>None\<close>
  (\<^verbatim>\<open>DISABLED\<close>: as false). \<^verbatim>\<open>LAST_RUN_STATUS\<close> is the one versioned attribute
  that the scheduler writes more than once: every value set is kept, newest last.
\<close>

record CronJob =
  urn :: urn
  locked :: bool
  CRON_ARGS :: "CreateCronJobFlowArgs option"
  DISABLED :: bool
  CURRENT_FLOW_URN :: "urn option"
  LAST_RUN_TIME :: "RDFDatetime option"
  LAST_RUN_STATUS :: "Status list"
  STATE_DICT :: "(string \<times> string) list"

subsection \<open>The world around the scheduler\<close>

text \<open>
  The state of a flow's runner context: \<^verbatim>\<open>runner.IsRunning()\<close> holds in
  \<open>RUNNING\<close>; \<open>FLOW_ERROR\<close> is \<^verbatim>\<open>FlowContext.State.ERROR\<close>, the failed terminal
  state, and \<open>TERMINATED\<close> the successful one.
\<close>

datatype FlowState = RUNNING | TERMINATED | FLOW_ERROR

record GRRFlow =
  state :: FlowState
  created :: RDFDatetime

text \<open>
  The exceptions that the code raises itself (\<^verbatim>\<open>LockError\<close>, \<^verbatim>\<open>ValueError\<close>), those
  of an attribute that reads as \<^verbatim>\<open>None\<close> and is then used (\<^verbatim>\<open>AttributeError\<close> for
  \<^verbatim>\<open>None.x\<close>, \<^verbatim>\<open>TypeError\<close> for arithmetic on \<^verbatim>\<open>None\<close>), and those of the
  store and of the engine.
\<close>

datatype exn =
    LockError
  | InstantiationError
  | ValueError string
  | AttributeError
  | TypeError
  | EngineError

datatype event =
    LogInfo urn
  | LogError urn
  | LogException urn exn
  | IncrementCounter string "string list"
  | RecordEvent string int "string list"
  | TerminateAFF4Flow urn string
  | StartAFF4Flow FlowRunnerArgs CreateGenericHuntFlowArgs urn
  | AcquireLock urn bool int
  | MultiDestroyFlowStates "urn list"
  | MultiDelete "urn list"

text \<open>
  The world: the clock that \<^verbatim>\<open>RDFDatetime.Now()\<close> and \<^verbatim>\<open>time.time()\<close> read (it
  stands still during one call), the cron job objects of the store by URN, the leases
  held on them (URN and expiry time), the flows of the engine by URN, the flow names the
  engine refuses to start, the number of the next flow session, the numbers that
  \<^verbatim>\<open>random.UInt16()\<close> hands out and how many were drawn, and a journal of every
  request made to a collaborator (log lines, counters, engine and store requests),
  oldest first.
\<close>

record world =
  clock :: RDFDatetime
  cron_jobs :: "(urn \<times> CronJob) list"
  leases :: "(urn \<times> RDFDatetime) list"
  flows :: "(urn \<times> GRRFlow) list"
  engine_refuses :: "string list"
  next_session :: nat
  random_UInt16 :: "nat \<Rightarrow> nat"
  drawn :: nat
  journal :: "event list"

type_synonym 'a res = "(exn + 'a) \<times> CronJob \<times> world"

definition emit :: "event \<Rightarrow> world \<Rightarrow> world" where
  "emit e w = w\<lparr>journal := journal w @ [e]\<rparr>"

subsection \<open>Decimal numerals, for generated names\<close>

definition digit_char :: "nat \<Rightarrow> char" where
  "digit_char d = ''0123456789'' ! d"

function decimal :: "nat \<Rightarrow> string" where
  "decimal n = (if n < 10 then [digit_char n] else decimal (n div 10) @ [digit_char (n mod 10)])"
  by pat_completeness auto
termination
  by (relation "measure id") auto

declare decimal.simps [simp del]

subsection \<open>The flow engine\<close>

text \<open>
  Modelled from the spec: the execution engine (\<^verbatim>\<open>flow.StartAFF4Flow\<close>,
  \<^verbatim>\<open>flow.GRRFlow.TerminateAFF4Flow\<close>, \<^verbatim>\<open>aff4.FACTORY.Open\<close> of a flow and its
  runner) is not part of the scheduler's source. "Given a job's payload specification,
  [it] starts an asynchronous, independently-running unit of work and returns an opaque
  handle; the handle can be queried for {RUNNING, SUCCEEDED, FAILED} and can be asked to
  terminate"; terminating "is a best-effort request", the scheduler "does not block
  waiting for the terminate request to complete". The handle of a new flow is a URN
  below \<^verbatim>\<open>base_session_id\<close> that no earlier flow has; the engine may refuse a flow
  name, and the call then raises.
\<close>

definition OpenFlow :: "world \<Rightarrow> urn \<Rightarrow> GRRFlow option" where
  "OpenFlow w u = map_of (flows w) u"

definition TerminateFlow :: "urn \<Rightarrow> string \<Rightarrow> world \<Rightarrow> world" where
  "TerminateFlow u reason w = emit (TerminateAFF4Flow u reason) w"

definition session_urn :: "FlowRunnerArgs \<Rightarrow> nat \<Rightarrow> urn" where
  "session_urn ra n =
     Add (case base_session_id ra of None \<Rightarrow> [''flows''] | Some b \<Rightarrow> b) (''F:'' @ decimal n)"

definition StartFlow ::
  "FlowRunnerArgs \<Rightarrow> CreateGenericHuntFlowArgs \<Rightarrow> world \<Rightarrow> (exn + urn) \<times> world" where
  "StartFlow ra args w =
     (if flow_name ra \<in> set (engine_refuses w) then (Inl EngineError, w)
      else
        let u = session_urn ra (next_session w) in
        (Inr u,
         emit (StartAFF4Flow ra args u)
           (w\<lparr>flows := AList.update u \<lparr>state = RUNNING, created = clock w\<rparr> (flows w),
              next_session := Suc (next_session w)\<rparr>)))"

subsection \<open>\<^verbatim>\<open>CronJob\<close>\<close>

definition IsRunning :: "CronJob \<Rightarrow> world \<Rightarrow> bool res" where
  "IsRunning self w =
     (case CURRENT_FLOW_URN self of
        None \<Rightarrow> (Inr False, self, w)
      | Some current_urn \<Rightarrow>
          (case OpenFlow w current_urn of
             None \<Rightarrow>
               (Inr False, self\<lparr>CURRENT_FLOW_URN := None\<rparr>, emit (LogError current_urn) w)
           | Some current_flow \<Rightarrow> (Inr (state current_flow = RUNNING), self, w)))"

definition DueToRun :: "CronJob \<Rightarrow> world \<Rightarrow> exn + bool" where
  "DueToRun self w =
     (if DISABLED self then Inr False
      else
        (case CRON_ARGS self of
           None \<Rightarrow> Inl AttributeError
         | Some cron_args \<Rightarrow>
             let last_run_time = LAST_RUN_TIME self; now = clock w in
             if (case last_run_time of
                   None \<Rightarrow> True
                 | Some t \<Rightarrow> now > Expiry (periodicity cron_args) t)
             then
               if now < start_time cron_args then Inr False
               else if allow_overruns cron_args then Inr True
               else if CURRENT_FLOW_URN self = None then Inr True
               else Inr False
             else Inr False))"

definition StopCurrentRun :: "string \<Rightarrow> CronJob \<Rightarrow> world \<Rightarrow> CronJob \<times> world" where
  "StopCurrentRun reason self w =
     (case CURRENT_FLOW_URN self of
        None \<Rightarrow> (self, w)
      | Some current_flow_urn \<Rightarrow>
          (self\<lparr>LAST_RUN_STATUS := LAST_RUN_STATUS self @ [TIMEOUT],
                CURRENT_FLOW_URN := None\<rparr>,
           TerminateFlow current_flow_urn reason w))"

definition KillOldFlows :: "CronJob \<Rightarrow> world \<Rightarrow> bool res" where
  "KillOldFlows self w =
     (case IsRunning self w of
        (Inl e, self1, w1) \<Rightarrow> (Inl e, self1, w1)
      | (Inr False, self1, w1) \<Rightarrow> (Inr False, self1, w1)
      | (Inr True, self1, w1) \<Rightarrow>
          (case CRON_ARGS self1 of
             None \<Rightarrow> (Inl AttributeError, self1, w1)
           | Some cron_args \<Rightarrow>
               (case LAST_RUN_TIME self1 of
                  None \<Rightarrow> (Inl TypeError, self1, w1)
                | Some start_time' \<Rightarrow>
                    let lifetime' = lifetime cron_args;
                        elapsed = clock w1 - start_time'
                    in
                      if lifetime' \<noteq> 0 \<and> elapsed > lifetime' then
                        (case StopCurrentRun ''Cron lifetime exceeded.'' self1 w1 of
                           (self2, w2) \<Rightarrow>
                             (Inr True, self2,
                              emit (RecordEvent ''cron_job_latency'' elapsed
                                      [Basename (urn self2)])
                                (emit (IncrementCounter ''cron_job_timeout''
                                         [Basename (urn self2)]) w2)))
                      else (Inr False, self1, w1))))"

text \<open>
  \<^verbatim>\<open>Run\<close>, lines 497 to 522: "If currently running flow has finished, update our
  state."
\<close>

definition Run_finished :: "CronJob \<Rightarrow> world \<Rightarrow> unit res" where
  "Run_finished self w =
     (case CURRENT_FLOW_URN self of
        None \<Rightarrow> (Inr (), self, w)
      | Some current_flow_urn \<Rightarrow>
          (case OpenFlow w current_flow_urn of
             None \<Rightarrow> (Inl AttributeError, self, w)
           | Some current_flow \<Rightarrow>
               if state current_flow \<noteq> RUNNING then
                 if state current_flow = FLOW_ERROR then
                   (Inr (),
                    self\<lparr>LAST_RUN_STATUS := LAST_RUN_STATUS self @ [ERROR],
                         CURRENT_FLOW_URN := None\<rparr>,
                    emit (IncrementCounter ''cron_job_failure'' [Basename (urn self)]) w)
                 else
                   (case LAST_RUN_TIME self of
                      None \<Rightarrow>
                        (Inl AttributeError,
                         self\<lparr>LAST_RUN_STATUS := LAST_RUN_STATUS self @ [OK]\<rparr>, w)
                    | Some start_time' \<Rightarrow>
                        (Inr (),
                         self\<lparr>LAST_RUN_STATUS := LAST_RUN_STATUS self @ [OK],
                              CURRENT_FLOW_URN := None\<rparr>,
                         emit (RecordEvent ''cron_job_latency'' (clock w - start_time')
                                 [Basename (urn self)]) w))
               else (Inr (), self, w)))"

text \<open>
  \<^verbatim>\<open>Run\<close>, lines 524 to 539: the due check and the start of the flow. The flow
  runner arguments are handed to the engine with the job's URN as
  \<^verbatim>\<open>base_session_id\<close>; the arguments stored as \<^verbatim>\<open>CRON_ARGS\<close> are not set again.
\<close>

definition Run_start :: "bool \<Rightarrow> CronJob \<Rightarrow> world \<Rightarrow> unit res" where
  "Run_start force self w =
     (case (if force then Inr True else DueToRun self w) of
        Inl e \<Rightarrow> (Inl e, self, w)
      | Inr False \<Rightarrow> (Inr (), self, w)
      | Inr True \<Rightarrow>
          (case CRON_ARGS self of
             None \<Rightarrow> (Inl AttributeError, self, w)
           | Some cron_args \<Rightarrow>
               (case StartFlow ((flow_runner_args cron_args)\<lparr>base_session_id := Some (urn self)\<rparr>)
                       (flow_args cron_args) w of
                  (Inl e, w1) \<Rightarrow> (Inl e, self, w1)
                | (Inr flow_urn, w1) \<Rightarrow>
                    (Inr (),
                     self\<lparr>CURRENT_FLOW_URN := Some flow_urn,
                          LAST_RUN_TIME := Some (clock w1)\<rparr>,
                     w1))))"

definition Run :: "bool \<Rightarrow> CronJob \<Rightarrow> world \<Rightarrow> unit res" where
  "Run force self w =
     (if \<not> locked self then (Inl LockError, self, w)
      else
        (case KillOldFlows self w of
           (Inl e, self1, w1) \<Rightarrow> (Inl e, self1, w1)
         | (Inr _, self1, w1) \<Rightarrow>
             (case Run_finished self1 w1 of
                (Inl e, self2, w2) \<Rightarrow> (Inl e, self2, w2)
              | (Inr _, self2, w2) \<Rightarrow> Run_start force self2 w2)))"

subsection \<open>The record store\<close>

text \<open>
  Modelled from the spec: the record store (\<^verbatim>\<open>aff4.FACTORY\<close>) is not part of the
  scheduler's source. It "holds one versioned record per job, supports atomic create,
  open, open-with-exclusive-lease, multi-open, and delete"; the lease is "an explicit
  AcquireLease(key, ttl) -> Option<Token> non-blocking operation plus Release(Token)",
  "a time-bounded, non-blocking mutual-exclusion token over one job's record, held by at
  most one caller at a time". \<^verbatim>\<open>OpenWithLock\<close> fails with \<^verbatim>\<open>LockError\<close> while
  another holder's lease has not expired; otherwise it takes the lease for
  \<open>lease_time\<close> and hands out the object, locked; a URN that holds no cron job cannot
  be opened, and the call raises. Leaving the \<^verbatim>\<open>with\<close> block closes the object:
  what was set is written to the store and the lease is released. \<^verbatim>\<open>ListChildren\<close>
  lists the URNs directly below a URN, and \<^verbatim>\<open>Create\<close> opens the object at a URN,
  making a new one when there is none.
\<close>

definition ListChildren :: "(urn \<times> 'a) list \<Rightarrow> urn \<Rightarrow> urn list" where
  "ListChildren objs parent = [u. (u, _) \<leftarrow> objs, u \<noteq> [], butlast u = parent]"

definition lease_held :: "world \<Rightarrow> urn \<Rightarrow> bool" where
  "lease_held w u = (case map_of (leases w) u of None \<Rightarrow> False | Some expiry \<Rightarrow> clock w < expiry)"

definition OpenWithLock :: "urn \<Rightarrow> int \<Rightarrow> world \<Rightarrow> (exn + CronJob) \<times> world" where
  \<comment> \<open>with \<^verbatim>\<open>blocking=False\<close>\<close>
  "OpenWithLock u lease_time w =
     (let w1 = emit (AcquireLock u False lease_time) w in
      if lease_held w u then (Inl LockError, w1)
      else
        (case map_of (cron_jobs w) u of
           None \<Rightarrow> (Inl InstantiationError, w1)
         | Some obj \<Rightarrow>
             (Inr (obj\<lparr>urn := u, locked := True\<rparr>),
              w1\<lparr>leases := AList.update u (clock w + lease_time) (leases w)\<rparr>)))"

definition new_CronJob :: "urn \<Rightarrow> CronJob" where
  "new_CronJob u =
     \<lparr>urn = u, locked = False, CRON_ARGS = None, DISABLED = False, CURRENT_FLOW_URN = None,
      LAST_RUN_TIME = None, LAST_RUN_STATUS = [], STATE_DICT = []\<rparr>"

definition Create :: "urn \<Rightarrow> world \<Rightarrow> CronJob" where
  \<comment> \<open>with \<^verbatim>\<open>force_new_version=False\<close>: an object that is there already is opened\<close>
  "Create u w =
     (case map_of (cron_jobs w) u of
        None \<Rightarrow> new_CronJob u
      | Some obj \<Rightarrow> obj\<lparr>urn := u, locked := False\<rparr>)"

definition Close :: "CronJob \<Rightarrow> world \<Rightarrow> world" where
  "Close obj w =
     w\<lparr>cron_jobs := AList.update (urn obj) (obj\<lparr>locked := False\<rparr>) (cron_jobs w),
       leases := (if locked obj then AList.delete (urn obj) (leases w) else leases w)\<rparr>"

subsection \<open>\<^verbatim>\<open>CronManager\<close>\<close>

definition CRON_JOBS_PATH :: urn where
  "CRON_JOBS_PATH = [''cron'']"

definition draw_UInt16 :: "world \<Rightarrow> nat \<times> world" where
  "draw_UInt16 w = (random_UInt16 w (drawn w) mod 65536, w\<lparr>drawn := Suc (drawn w)\<rparr>)"

text \<open>
  Modelled from the spec: the class \<^verbatim>\<open>CreateCronJobFlowArgs\<close> is not part of the
  scheduler's source, and \<^verbatim>\<open>CreateJob\<close> builds its value without a \<^verbatim>\<open>start_time\<close>.
  The job creation input field "start_time (optional, defaults to now)".
\<close>

definition default_start_time :: "world \<Rightarrow> RDFDatetime" where
  "default_start_time w = clock w"

definition new_cron_args :: "CreateCronJobArgs \<Rightarrow> world \<Rightarrow> CreateCronJobFlowArgs" where
  \<comment> \<open>lines 59 to 74 of \<^verbatim>\<open>CreateJob\<close>\<close>
  "new_cron_args cron_args w =
     \<lparr>description = arg_description cron_args,
      periodicity = arg_frequency cron_args,
      flow_runner_args =
        \<lparr>flow_name = ''CreateAndRunGenericHuntFlow'', base_session_id = None\<rparr>,
      flow_args =
        \<lparr>hunt_flow_args = arg_flow_args cron_args,
         hunt_flow_name = arg_flow_name cron_args,
         hunt_runner_args = (arg_hunt_runner_args cron_args)\<lparr>hunt_name := ''GenericHunt''\<rparr>\<rparr>,
      allow_overruns = arg_allow_overruns cron_args,
      lifetime = arg_lifetime cron_args,
      start_time = default_start_time w\<rparr>"

definition CreateJob ::
  "CreateCronJobArgs \<Rightarrow> string option \<Rightarrow> bool \<Rightarrow> world \<Rightarrow> string \<times> world" where
  "CreateJob cron_args job_id enabled w =
     (let (job_id1, w1) =
            (case job_id of
               Some (c # cs) \<Rightarrow> (c # cs, w)
             | _ \<Rightarrow>
                 (case draw_UInt16 w of
                    (uid, w') \<Rightarrow> (arg_flow_name cron_args @ ''_'' @ decimal uid, w')));
          create_cron_args = new_cron_args cron_args w1;
          cron_job_urn = Add CRON_JOBS_PATH job_id1;
          cron_job = Create cron_job_urn w1;
          existing_cron_args = CRON_ARGS cron_job;
          create_cron_args1 =
            (case existing_cron_args of
               None \<Rightarrow> create_cron_args
             | Some existing \<Rightarrow>
                 if start_time existing \<noteq> 0
                 then create_cron_args\<lparr>start_time := start_time existing\<rparr>
                 else create_cron_args);
          cron_job1 =
            (if Some create_cron_args1 \<noteq> existing_cron_args
             then cron_job\<lparr>CRON_ARGS := Some create_cron_args1\<rparr>
             else cron_job);
          cron_job2 = cron_job1\<lparr>DISABLED := \<not> enabled\<rparr>
      in (job_id1, Close cron_job2 w1))"

definition ListJobs :: "world \<Rightarrow> string list" where
  "ListJobs w = map Basename (ListChildren (cron_jobs w) CRON_JOBS_PATH)"

fun RunOnce_loop :: "bool \<Rightarrow> urn list \<Rightarrow> world \<Rightarrow> (exn + unit) \<times> world" where
  "RunOnce_loop force [] w = (Inr (), w)"
| "RunOnce_loop force (cron_job_urn # urns) w =
     (case OpenWithLock cron_job_urn 600 w of
        (Inl e, w1) \<Rightarrow> if e = LockError then RunOnce_loop force urns w1 else (Inl e, w1)
      | (Inr cron_job, w1) \<Rightarrow>
          (case Run force cron_job (emit (LogInfo (urn cron_job)) w1) of
             (Inl e, cron_job1, w2) \<Rightarrow>
               RunOnce_loop force urns
                 (Close cron_job1
                    (emit (IncrementCounter ''cron_internal_error'' [])
                       (emit (LogException (urn cron_job1) e) w2)))
           | (Inr _, cron_job1, w2) \<Rightarrow> RunOnce_loop force urns (Close cron_job1 w2)))"

definition RunOnce :: "bool \<Rightarrow> string list option \<Rightarrow> world \<Rightarrow> (exn + unit) \<times> world" where
  "RunOnce force names w =
     (let names1 = (case names of Some (n # ns) \<Rightarrow> n # ns | _ \<Rightarrow> ListJobs w);
          urns = map (Add CRON_JOBS_PATH) names1
      in RunOnce_loop force urns w)"

text \<open>
  Modelled from the spec: \<^verbatim>\<open>job.ListChildren(age=cutoff_timestamp)\<close> is a method of
  the record store's objects and not part of the scheduler's source. The run-history
  entries of a job are the flows started below its URN, each with the time it was
  created at; the entries it lists for a cutoff are those "with timestamp strictly
  before cutoff".
\<close>

definition ListChildren_age :: "world \<Rightarrow> urn \<Rightarrow> RDFDatetime \<Rightarrow> urn list" where
  "ListChildren_age w parent age =
     ListChildren [(u, f) \<leftarrow> flows w. created f < age] parent"

definition DeleteOldRuns ::
  "CronJob \<Rightarrow> RDFDatetime option \<Rightarrow> world \<Rightarrow> (exn + nat) \<times> world" where
  "DeleteOldRuns job cutoff_timestamp w =
     (case cutoff_timestamp of
        None \<Rightarrow> (Inl (ValueError ''cutoff_timestamp can't be None''), w)
      | Some cutoff \<Rightarrow>
          let child_flows = ListChildren_age w (urn job) cutoff;
              w1 = emit (MultiDestroyFlowStates child_flows) w;
              w2 = emit (MultiDelete child_flows)
                     (w1\<lparr>flows := [(u, f) \<leftarrow> flows w1. u \<notin> set child_flows]\<rparr>)
          in (Inr (length child_flows), w2))"

section \<open>What the theorems speak about\<close>

text \<open>
  The flows started and the locks asked for, as the journal records them; what it means
  that a step left the store, the object or the set of runs alone; the record invariant
  that a tracked run has a start time; the due decision in the words of the
  specification; and reading a job back from the store.
\<close>

definition started :: "world \<Rightarrow> urn list" where
  "started w = [u. StartAFF4Flow _ _ u \<leftarrow> journal w]"

definition lock_attempts :: "world \<Rightarrow> (urn \<times> bool \<times> int) list" where
  "lock_attempts w = [(u, blocking, lease_time). AcquireLock u blocking lease_time \<leftarrow> journal w]"

definition same_store :: "world \<Rightarrow> world \<Rightarrow> bool" where
  "same_store w w' \<longleftrightarrow>
     clock w' = clock w \<and> cron_jobs w' = cron_jobs w \<and> leases w' = leases w \<and>
     lock_attempts w' = lock_attempts w"

definition same_object :: "CronJob \<Rightarrow> CronJob \<Rightarrow> bool" where
  "same_object self self' \<longleftrightarrow> urn self' = urn self \<and> locked self' = locked self"

definition nothing_started :: "CronJob \<times> world \<Rightarrow> CronJob \<times> world \<Rightarrow> bool" where
  "nothing_started before after \<longleftrightarrow>
     (case (before, after) of ((self, w), (self', w')) \<Rightarrow>
        flows w' = flows w \<and> started w' = started w \<and> next_session w' = next_session w \<and>
        LAST_RUN_TIME self' = LAST_RUN_TIME self \<and>
        (CURRENT_FLOW_URN self' = CURRENT_FLOW_URN self \<or> CURRENT_FLOW_URN self' = None))"

definition tracked_run_has_time :: "CronJob \<Rightarrow> bool" where
  "tracked_run_has_time self \<longleftrightarrow>
     (case CURRENT_FLOW_URN self of None \<Rightarrow> True | Some _ \<Rightarrow> LAST_RUN_TIME self \<noteq> None)"

definition spec_DueToRun :: "CronJob \<Rightarrow> CreateCronJobFlowArgs \<Rightarrow> RDFDatetime \<Rightarrow> bool" where
  "spec_DueToRun self cron_args now =
     (if DISABLED self then False
      else if now < start_time cron_args then False
      else
        (case LAST_RUN_TIME self of
           None \<Rightarrow> True
         | Some t \<Rightarrow>
             now > Expiry (periodicity cron_args) t \<and>
             (allow_overruns cron_args \<or> CURRENT_FLOW_URN self = None)))"

definition ReadJob :: "world \<Rightarrow> string \<Rightarrow> CronJob option" where
  "ReadJob w job_id = map_of (cron_jobs w) (Add CRON_JOBS_PATH job_id)"

definition stored_args :: "world \<Rightarrow> string \<Rightarrow> CreateCronJobFlowArgs option" where
  "stored_args w job_id = (case ReadJob w job_id of None \<Rightarrow> None | Some obj \<Rightarrow> CRON_ARGS obj)"

definition old_run :: "urn \<Rightarrow> RDFDatetime \<Rightarrow> urn \<times> GRRFlow \<Rightarrow> bool" where
  "old_run parent cutoff = (\<lambda>(u, f). u \<noteq> [] \<and> butlast u = parent \<and> created f < cutoff)"

subsection \<open>Example jobs and worlds\<close>

text \<open>
  An hourly job \<open>A\<close> with a lifetime of 600 that started the flow \<open>F:0\<close> at time 200
  and holds the lock; a world whose engine knows that flow in a given state at a given
  time; jobs that never ran; a store with given jobs and leases at time 1000; and a world
  with three old runs.
\<close>

definition example_args :: CreateCronJobFlowArgs where
  "example_args =
     \<lparr>description = ''hourly'', periodicity = 3600,
      flow_runner_args = \<lparr>flow_name = ''CreateAndRunGenericHuntFlow'', base_session_id = None\<rparr>,
      flow_args =
        \<lparr>hunt_flow_args = '''', hunt_flow_name = ''Interrogate'',
         hunt_runner_args = \<lparr>hunt_name = ''GenericHunt'', hunt_runner_rest = ''''\<rparr>\<rparr>,
      allow_overruns = False, lifetime = 600, start_time = 100\<rparr>"

definition example_job :: CronJob where
  "example_job =
     \<lparr>urn = [''cron'', ''A''], locked = True, CRON_ARGS = Some example_args, DISABLED = False,
      CURRENT_FLOW_URN = Some [''cron'', ''A'', ''F:0''], LAST_RUN_TIME = Some 200,
      LAST_RUN_STATUS = [], STATE_DICT = []\<rparr>"

definition example_world :: "FlowState \<Rightarrow> RDFDatetime \<Rightarrow> world" where
  "example_world st now =
     \<lparr>clock = now, cron_jobs = [], leases = [],
      flows = [([''cron'', ''A'', ''F:0''], \<lparr>state = st, created = 200\<rparr>)],
      engine_refuses = [], next_session = 1, random_UInt16 = (\<lambda>_. 7), drawn = 0,
      journal = []\<rparr>"

definition idle_job :: "string \<Rightarrow> CronJob" where
  "idle_job name =
     \<lparr>urn = [''cron'', name], locked = False, CRON_ARGS = Some example_args, DISABLED = False,
      CURRENT_FLOW_URN = None, LAST_RUN_TIME = None, LAST_RUN_STATUS = [], STATE_DICT = []\<rparr>"

definition store_world :: "(urn \<times> CronJob) list \<Rightarrow> (urn \<times> RDFDatetime) list \<Rightarrow> world" where
  "store_world jobs held =
     \<lparr>clock = 1000, cron_jobs = jobs, leases = held, flows = [], engine_refuses = [],
      next_session = 0, random_UInt16 = (\<lambda>_. 7), drawn = 0, journal = []\<rparr>"

definition history_world :: world where
  "history_world =
     \<lparr>clock = 1000, cron_jobs = [], leases = [],
      flows =
        [([''cron'', ''A'', ''F:0''], \<lparr>state = TERMINATED, created = 100\<rparr>),
         ([''cron'', ''A'', ''F:1''], \<lparr>state = TERMINATED, created = 200\<rparr>),
         ([''cron'', ''B'', ''F:2''], \<lparr>state = TERMINATED, created = 50\<rparr>)],
      engine_refuses = [], next_session = 3, random_UInt16 = (\<lambda>_. 7), drawn = 0,
      journal = []\<rparr>"

definition example_create_args :: CreateCronJobArgs where
  "example_create_args =
     \<lparr>arg_flow_name = ''Interrogate'', arg_flow_args = '''',
      arg_hunt_runner_args = \<lparr>hunt_name = '''', hunt_runner_rest = ''''\<rparr>,
      arg_description = ''hourly'', arg_frequency = 3600, arg_allow_overruns = False,
      arg_lifetime = 600\<rparr>"

section \<open>Basic facts\<close>

lemmas example_defs = example_args_def example_job_def example_world_def

lemmas run_defs = Run_def KillOldFlows_def IsRunning_def OpenFlow_def StopCurrentRun_def
  TerminateFlow_def Run_finished_def Run_start_def DueToRun_def StartFlow_def session_urn_def
  Expiry_def emit_def Basename_def Add_def decimal.simps digit_char_def Let_def

lemma started_emit:
  "started (emit e w) = started w @ (case e of StartAFF4Flow _ _ u \<Rightarrow> [u] | _ \<Rightarrow> [])"
  by (cases e) (simp_all add: started_def emit_def)

lemma lock_attempts_emit:
  "lock_attempts (emit e w) =
     lock_attempts w @ (case e of AcquireLock u b t \<Rightarrow> [(u, b, t)] | _ \<Rightarrow> [])"
  by (cases e) (simp_all add: lock_attempts_def emit_def)

lemma emit_simps [simp]:
  "clock (emit e w) = clock w" "cron_jobs (emit e w) = cron_jobs w"
  "leases (emit e w) = leases w" "flows (emit e w) = flows w"
  "engine_refuses (emit e w) = engine_refuses w" "next_session (emit e w) = next_session w"
  "journal (emit e w) = journal w @ [e]"
  by (simp_all add: emit_def)

lemma OpenFlow_emit [simp]: "OpenFlow (emit e w) u = OpenFlow w u"
  by (simp add: OpenFlow_def)

lemma same_store_refl [simp]: "same_store w w"
  by (simp add: same_store_def)

subsection \<open>The steps of \<^verbatim>\<open>Run\<close>, case by case\<close>

lemma IsRunning_flow:
  "CURRENT_FLOW_URN self = Some h \<Longrightarrow> OpenFlow w h = Some f \<Longrightarrow>
   IsRunning self w = (Inr (state f = RUNNING), self, w)"
  by (simp add: IsRunning_def)

lemma KillOldFlows_timeout:
  assumes "CRON_ARGS self = Some cron_args" "lifetime cron_args \<noteq> 0"
    "CURRENT_FLOW_URN self = Some h" "OpenFlow w h = Some f" "state f = RUNNING"
    "LAST_RUN_TIME self = Some t" "clock w - t > lifetime cron_args"
  shows "KillOldFlows self w =
    (Inr True,
     self\<lparr>LAST_RUN_STATUS := LAST_RUN_STATUS self @ [TIMEOUT], CURRENT_FLOW_URN := None\<rparr>,
     emit (RecordEvent ''cron_job_latency'' (clock w - t) [Basename (urn self)])
       (emit (IncrementCounter ''cron_job_timeout'' [Basename (urn self)])
          (emit (TerminateAFF4Flow h ''Cron lifetime exceeded.'') w)))"
  using assms
  by (simp add: KillOldFlows_def IsRunning_flow [OF assms(3,4)] StopCurrentRun_def
      TerminateFlow_def Let_def)

lemma KillOldFlows_within_lifetime:
  assumes "CRON_ARGS self = Some cron_args"
    "CURRENT_FLOW_URN self = Some h" "OpenFlow w h = Some f" "state f = RUNNING"
    "LAST_RUN_TIME self = Some t" "\<not> (lifetime cron_args \<noteq> 0 \<and> clock w - t > lifetime cron_args)"
  shows "KillOldFlows self w = (Inr False, self, w)"
  using assms
  by (auto simp: KillOldFlows_def IsRunning_flow [OF assms(2,3)] Let_def)

lemma KillOldFlows_finished:
  assumes "CURRENT_FLOW_URN self = Some h" "OpenFlow w h = Some f" "state f \<noteq> RUNNING"
  shows "KillOldFlows self w = (Inr False, self, w)"
  using assms by (simp add: KillOldFlows_def IsRunning_flow [OF assms(1,2)])

lemma Run_finished_idle: "CURRENT_FLOW_URN self = None \<Longrightarrow> Run_finished self w = (Inr (), self, w)"
  by (simp add: Run_finished_def)

lemma Run_finished_running:
  "CURRENT_FLOW_URN self = Some h \<Longrightarrow> OpenFlow w h = Some f \<Longrightarrow> state f = RUNNING \<Longrightarrow>
   Run_finished self w = (Inr (), self, w)"
  by (simp add: Run_finished_def)

lemma Run_finished_terminal:
  assumes "CURRENT_FLOW_URN self = Some h" "OpenFlow w h = Some f" "state f \<noteq> RUNNING"
    "LAST_RUN_TIME self = Some t"
  shows "Run_finished self w =
    (Inr (),
     self\<lparr>LAST_RUN_STATUS := LAST_RUN_STATUS self @ [if state f = FLOW_ERROR then ERROR else OK],
          CURRENT_FLOW_URN := None\<rparr>,
     emit (if state f = FLOW_ERROR
           then IncrementCounter ''cron_job_failure'' [Basename (urn self)]
           else RecordEvent ''cron_job_latency'' (clock w - t) [Basename (urn self)]) w)"
  using assms by (simp add: Run_finished_def)

lemma Run_start_disabled:
  "DISABLED self \<Longrightarrow> Run_start False self w = (Inr (), self, w)"
  by (simp add: Run_start_def DueToRun_def)

lemma Run_start_outcome:
  assumes "Run_start force self w = (r, self', w')"
  shows "LAST_RUN_STATUS self' = LAST_RUN_STATUS self \<and>
    set (journal w) \<subseteq> set (journal w') \<and>
    (CURRENT_FLOW_URN self' = CURRENT_FLOW_URN self \<and> started w' = started w \<or>
     (\<exists>u. CURRENT_FLOW_URN self' = Some u \<and> started w' = started w @ [u]))"
  using assms
  by (auto simp: Run_start_def StartFlow_def Let_def started_def emit_def
      split: sum.splits bool.splits option.splits prod.splits if_splits)

subsection \<open>What the steps of \<^verbatim>\<open>Run\<close> leave alone\<close>

lemma IsRunning_frame:
  assumes "IsRunning self w = (r, self', w')"
  shows "same_store w w' \<and> same_object self self' \<and> nothing_started (self, w) (self', w') \<and>
    DISABLED self' = DISABLED self \<and> CRON_ARGS self' = CRON_ARGS self \<and>
    LAST_RUN_STATUS self' = LAST_RUN_STATUS self"
  using assms
  by (auto simp: IsRunning_def same_object_def nothing_started_def started_emit
      same_store_def lock_attempts_emit split: option.splits)

lemma KillOldFlows_frame:
  assumes "KillOldFlows self w = (r, self', w')"
  shows "same_store w w' \<and> same_object self self' \<and> nothing_started (self, w) (self', w') \<and>
    DISABLED self' = DISABLED self \<and> CRON_ARGS self' = CRON_ARGS self"
proof -
  obtain b self1 w1 where ir: "IsRunning self w = (b, self1, w1)"
    by (cases "IsRunning self w") auto
  note f = IsRunning_frame [OF ir]
  show ?thesis
    using assms f
    by (auto simp: KillOldFlows_def ir StopCurrentRun_def TerminateFlow_def Let_def
        same_object_def nothing_started_def started_emit same_store_def lock_attempts_emit
        split: sum.splits bool.splits option.splits if_splits)
qed

lemma Run_finished_frame:
  assumes "Run_finished self w = (r, self', w')"
  shows "same_store w w' \<and> same_object self self' \<and> nothing_started (self, w) (self', w') \<and>
    DISABLED self' = DISABLED self \<and> CRON_ARGS self' = CRON_ARGS self"
  using assms
  by (auto simp: Run_finished_def same_object_def nothing_started_def started_emit
      same_store_def lock_attempts_emit split: option.splits if_splits)

lemma StartFlow_frame:
  "StartFlow ra args w = (r, w') \<Longrightarrow> same_store w w'"
  by (auto simp: StartFlow_def Let_def same_store_def lock_attempts_def emit_def
      split: if_splits)

lemma Run_start_frame:
  assumes "Run_start force self w = (r, self', w')"
  shows "same_store w w' \<and> same_object self self' \<and>
    DISABLED self' = DISABLED self \<and> CRON_ARGS self' = CRON_ARGS self \<and>
    LAST_RUN_STATUS self' = LAST_RUN_STATUS self"
  using assms
  by (auto simp: Run_start_def same_object_def dest: StartFlow_frame
      split: sum.splits bool.splits option.splits prod.splits if_splits)

lemma Run_frame:
  assumes "Run force self w = (r, self', w')"
  shows "same_store w w' \<and> same_object self self' \<and>
    DISABLED self' = DISABLED self \<and> CRON_ARGS self' = CRON_ARGS self"
proof (cases "locked self")
  case False
  with assms show ?thesis by (simp add: Run_def same_object_def)
next
  case True
  obtain r1 self1 w1 where k: "KillOldFlows self w = (r1, self1, w1)"
    by (cases "KillOldFlows self w") auto
  obtain r2 self2 w2 where f: "Run_finished self1 w1 = (r2, self2, w2)"
    by (cases "Run_finished self1 w1") auto
  obtain r3 self3 w3 where s: "Run_start force self2 w2 = (r3, self3, w3)"
    by (cases "Run_start force self2 w2") auto
  note kf = KillOldFlows_frame [OF k] and ff = Run_finished_frame [OF f]
    and sf = Run_start_frame [OF s]
  show ?thesis
    using assms True kf ff sf
    by (auto simp: Run_def k f s same_store_def same_object_def split: sum.splits)
qed

subsection \<open>A tracked run has a start time\<close>

text \<open>
  A job starts with neither a tracked run nor a last run time; \<^verbatim>\<open>Run\<close> sets
  \<^verbatim>\<open>CURRENT_FLOW_URN\<close> and \<^verbatim>\<open>LAST_RUN_TIME\<close> together (lines 537 and 538)
  and nothing deletes the latter; \<^verbatim>\<open>CreateJob\<close> writes neither. So every record
  that the scheduler writes keeps the invariant: a job whose last run time is unset
  never ran and tracks no run.
\<close>

lemma new_CronJob_tracked: "tracked_run_has_time (new_CronJob u)"
  by (simp add: tracked_run_has_time_def new_CronJob_def)

lemma tracked_run_has_time_update [simp]:
  "tracked_run_has_time (c\<lparr>urn := v\<rparr>) = tracked_run_has_time c"
  "tracked_run_has_time (c\<lparr>locked := l\<rparr>) = tracked_run_has_time c"
  "tracked_run_has_time (c\<lparr>CRON_ARGS := a\<rparr>) = tracked_run_has_time c"
  "tracked_run_has_time (c\<lparr>DISABLED := d\<rparr>) = tracked_run_has_time c"
  by (simp_all add: tracked_run_has_time_def split: option.splits)

lemma Create_tracked:
  assumes "\<forall>v obj. map_of (cron_jobs w) v = Some obj \<longrightarrow> tracked_run_has_time obj"
  shows "tracked_run_has_time (Create u w)"
proof (cases "map_of (cron_jobs w) u")
  case None
  then show ?thesis by (simp add: Create_def new_CronJob_tracked)
next
  case (Some obj)
  with assms have "tracked_run_has_time obj" by blast
  with Some show ?thesis by (simp add: Create_def)
qed

lemma Close_tracked:
  assumes "map_of (cron_jobs (Close new w)) u = Some obj"
    and "tracked_run_has_time new"
    and "\<forall>v obj. map_of (cron_jobs w) v = Some obj \<longrightarrow> tracked_run_has_time obj"
  shows "tracked_run_has_time obj"
proof (cases "u = urn new")
  case True
  with assms(1) have "obj = new\<lparr>locked := False\<rparr>"
    by (simp add: Close_def update_conv')
  with assms(2) show ?thesis by simp
next
  case False
  with assms(1) have "map_of (cron_jobs w) u = Some obj"
    by (simp add: Close_def update_conv')
  with assms(3) show ?thesis by blast
qed

lemma CreateJob_tracked:
  assumes inv: "\<forall>v obj. map_of (cron_jobs w) v = Some obj \<longrightarrow> tracked_run_has_time obj"
    and "map_of (cron_jobs (snd (CreateJob cron_args job_id enabled w))) u = Some obj"
  shows "tracked_run_has_time obj"
proof -
  have inv': "\<forall>v obj. map_of (cron_jobs (w\<lparr>drawn := n\<rparr>)) v = Some obj \<longrightarrow>
      tracked_run_has_time obj" for n
    using inv by simp
  from assms(2) show ?thesis
    by (auto simp: CreateJob_def Let_def draw_UInt16_def Create_tracked [OF inv]
        Create_tracked [OF inv'] inv inv'
        split: option.splits list.splits if_splits elim!: Close_tracked)
qed

lemma Run_start_tracked:
  "Run_start force self w = (r, self', w') \<Longrightarrow> tracked_run_has_time self \<Longrightarrow>
   tracked_run_has_time self'"
  by (auto simp: Run_start_def tracked_run_has_time_def
      split: sum.splits bool.splits option.splits prod.splits if_splits)

lemma nothing_started_tracked:
  "nothing_started (self, w) (self', w') \<Longrightarrow> tracked_run_has_time self \<Longrightarrow>
   tracked_run_has_time self'"
  by (auto simp: nothing_started_def tracked_run_has_time_def split: option.splits)

lemma Run_tracked_run_has_time:
  assumes "Run force self w = (r, self', w')" and "tracked_run_has_time self"
  shows "tracked_run_has_time self'"
proof (cases "locked self")
  case False
  with assms show ?thesis by (simp add: Run_def)
next
  case True
  obtain r1 self1 w1 where k: "KillOldFlows self w = (r1, self1, w1)"
    by (cases "KillOldFlows self w") auto
  obtain r2 self2 w2 where f: "Run_finished self1 w1 = (r2, self2, w2)"
    by (cases "Run_finished self1 w1") auto
  obtain r3 self3 w3 where s: "Run_start force self2 w2 = (r3, self3, w3)"
    by (cases "Run_start force self2 w2") auto
  from KillOldFlows_frame [OF k] assms(2) have t1: "tracked_run_has_time self1"
    by (blast intro: nothing_started_tracked)
  with Run_finished_frame [OF f] have t2: "tracked_run_has_time self2"
    by (blast intro: nothing_started_tracked)
  with s have t3: "tracked_run_has_time self3"
    by (rule Run_start_tracked)
  from assms(1) True t1 t2 t3 show ?thesis
    by (auto simp: Run_def k f s split: sum.splits)
qed

subsection \<open>The store and the loop of \<^verbatim>\<open>RunOnce\<close>\<close>

lemma lease_held_emit [simp]: "lease_held (emit e w) u = lease_held w u"
  by (simp add: lease_held_def split: option.splits)

lemma lease_held_cong:
  "clock w' = clock w \<Longrightarrow> map_of (leases w') u = map_of (leases w) u \<Longrightarrow>
   lease_held w' u = lease_held w u"
  by (simp add: lease_held_def split: option.splits)

lemma OpenWithLock_held:
  "lease_held w u \<Longrightarrow> OpenWithLock u t w = (Inl LockError, emit (AcquireLock u False t) w)"
  by (simp add: OpenWithLock_def Let_def)

lemma OpenWithLock_Inl:
  assumes "OpenWithLock u t w = (Inl e, w1)"
  shows "w1 = emit (AcquireLock u False t) w \<and>
    (if e = LockError then lease_held w u else map_of (cron_jobs w) u = None)"
  using assms by (auto simp: OpenWithLock_def Let_def split: if_splits option.splits)

lemma OpenWithLock_Inr:
  assumes "OpenWithLock u t w = (Inr obj, w1)"
  shows "\<not> lease_held w u \<and> urn obj = u \<and> locked obj \<and>
    clock w1 = clock w \<and> cron_jobs w1 = cron_jobs w \<and>
    leases w1 = AList.update u (clock w + t) (leases w) \<and>
    lock_attempts w1 = lock_attempts w @ [(u, False, t)]"
  using assms
  by (auto simp: OpenWithLock_def Let_def lock_attempts_def emit_def
      split: if_splits option.splits)

lemma Close_frame:
  "clock (Close obj w) = clock w \<and> lock_attempts (Close obj w) = lock_attempts w \<and>
   journal (Close obj w) = journal w"
  by (simp add: Close_def lock_attempts_def)

text \<open>
  One turn of the loop for a job whose lock was taken: the clock stands, the other jobs
  and their leases are untouched, the job is still in the store, and one lock was asked
  for.
\<close>

lemma locked_turn_frame:
  assumes o: "OpenWithLock v t w = (Inr obj, w1)"
    and r: "Run force obj (emit ev w1) = (res, obj1, w2)"
    and c: "w3 = Close obj1 (emit ev1 (emit ev2 w2)) \<or> w3 = Close obj1 w2"
  shows "clock w3 = clock w \<and>
    (\<forall>u. u \<noteq> v \<longrightarrow> map_of (cron_jobs w3) u = map_of (cron_jobs w) u \<and>
                      map_of (leases w3) u = map_of (leases w) u) \<and>
    map_of (cron_jobs w3) v \<noteq> None"
proof -
  note of = OpenWithLock_Inr [OF o] and rf = Run_frame [OF r]
  from of rf have u1: "urn obj1 = v" and l1: "locked obj1"
    by (simp_all add: same_object_def)
  from rf of have s2: "clock w2 = clock w" "cron_jobs w2 = cron_jobs w"
    "leases w2 = AList.update v (clock w + t) (leases w)"
    by (simp_all add: same_store_def)
  from c show ?thesis
    by (auto simp: Close_def u1 l1 s2 update_conv' delete_conv')
qed

lemma locked_turn_attempts:
  assumes o: "OpenWithLock v t w = (Inr obj, w1)"
    and r: "Run force obj (emit (LogInfo x) w1) = (res, obj1, w2)"
    and c: "w3 = Close obj1 (emit (IncrementCounter n fs) (emit (LogException y e) w2)) \<or>
            w3 = Close obj1 w2"
  shows "lock_attempts w3 = lock_attempts w @ [(v, False, t)]"
proof -
  from Run_frame [OF r] have "lock_attempts w2 = lock_attempts (emit (LogInfo x) w1)"
    by (simp add: same_store_def)
  also have "\<dots> = lock_attempts w1"
    by (simp add: lock_attempts_emit)
  finally have "lock_attempts w2 = lock_attempts w @ [(v, False, t)]"
    using OpenWithLock_Inr [OF o] by simp
  with c show ?thesis
    by (auto simp: Close_frame lock_attempts_emit)
qed

lemma RunOnce_loop_turn:
  assumes o: "OpenWithLock v 600 w = (Inr obj, w1)"
  shows "\<exists>res obj1 w2 w3 e.
    Run force obj (emit (LogInfo (urn obj)) w1) = (res, obj1, w2) \<and>
    RunOnce_loop force (v # urns) w = RunOnce_loop force urns w3 \<and>
    (w3 = Close obj1 (emit (IncrementCounter ''cron_internal_error'' [])
            (emit (LogException (urn obj1) e) w2)) \<or> w3 = Close obj1 w2)"
proof -
  obtain res obj1 w2 where r: "Run force obj (emit (LogInfo (urn obj)) w1) = (res, obj1, w2)"
    by (cases "Run force obj (emit (LogInfo (urn obj)) w1)") auto
  show ?thesis
  proof (cases res)
    case (Inl e)
    have "RunOnce_loop force (v # urns) w =
        RunOnce_loop force urns
          (Close obj1 (emit (IncrementCounter ''cron_internal_error'' [])
            (emit (LogException (urn obj1) e) w2)))"
      by (simp add: o r Inl)
    with r show ?thesis by blast
  next
    case (Inr u)
    have "RunOnce_loop force (v # urns) w = RunOnce_loop force urns (Close obj1 w2)"
      by (simp add: o r Inr)
    with r show ?thesis by blast
  qed
qed

lemma RunOnce_loop_held:
  "lease_held w u \<Longrightarrow>
   (case RunOnce_loop force urns w of (r, w') \<Rightarrow>
      r \<noteq> Inl LockError \<and> clock w' = clock w \<and>
      map_of (cron_jobs w') u = map_of (cron_jobs w) u \<and>
      map_of (leases w') u = map_of (leases w) u)"
proof (induction urns arbitrary: w)
  case Nil
  show ?case by simp
next
  case (Cons v urns)
  show ?case
  proof (cases "OpenWithLock v 600 w")
    case (Pair a w1)
    show ?thesis
    proof (cases a)
      case (Inl e)
      with Pair have o: "OpenWithLock v 600 w = (Inl e, w1)" by simp
      note f = OpenWithLock_Inl [OF o]
      show ?thesis
      proof (cases "e = LockError")
        case True
        from f Cons.prems have h1: "lease_held w1 u" by simp
        obtain r' w' where res: "RunOnce_loop force urns w1 = (r', w')"
          by (cases "RunOnce_loop force urns w1") auto
        from Cons.IH [OF h1] have "r' \<noteq> Inl LockError \<and> clock w' = clock w1 \<and>
            map_of (cron_jobs w') u = map_of (cron_jobs w1) u \<and>
            map_of (leases w') u = map_of (leases w1) u"
          by (simp add: res)
        with f res show ?thesis
          by (simp add: o True)
      next
        case False
        with f show ?thesis by (simp add: o)
      qed
    next
      case (Inr obj)
      with Pair have o: "OpenWithLock v 600 w = (Inr obj, w1)" by simp
      from OpenWithLock_Inr [OF o] Cons.prems have vu: "u \<noteq> v" by auto
      obtain res obj1 w2 where r: "Run force obj (emit (LogInfo (urn obj)) w1) = (res, obj1, w2)"
        by (cases "Run force obj (emit (LogInfo (urn obj)) w1)") auto
      define w3 where "w3 =
        (case res of
           Inl e \<Rightarrow> Close obj1 (emit (IncrementCounter ''cron_internal_error'' [])
                       (emit (LogException (urn obj1) e) w2))
         | Inr _ \<Rightarrow> Close obj1 w2)"
      have step: "RunOnce_loop force (v # urns) w = RunOnce_loop force urns w3"
        by (simp add: o r w3_def split: sum.splits)
      have "w3 = Close obj1 (emit (IncrementCounter ''cron_internal_error'' [])
                  (emit (LogException (urn obj1) (case res of Inl e \<Rightarrow> e | Inr _ \<Rightarrow> LockError)) w2))
            \<or> w3 = Close obj1 w2"
        by (simp add: w3_def split: sum.splits)
      from locked_turn_frame [OF o r this] vu
      have fr: "clock w3 = clock w" "map_of (cron_jobs w3) u = map_of (cron_jobs w) u"
        "map_of (leases w3) u = map_of (leases w) u"
        by simp_all
      with Cons.prems lease_held_cong [of w3 w u] have h3: "lease_held w3 u"
        by blast
      obtain r' w' where res: "RunOnce_loop force urns w3 = (r', w')"
        by (cases "RunOnce_loop force urns w3") auto
      from Cons.IH [OF h3] have "r' \<noteq> Inl LockError \<and> clock w' = clock w3 \<and>
          map_of (cron_jobs w') u = map_of (cron_jobs w3) u \<and>
          map_of (leases w') u = map_of (leases w3) u"
        by (simp add: res)
      with fr show ?thesis
        by (simp add: step res del: RunOnce_loop.simps)
    qed
  qed
qed

lemma RunOnce_loop_attempts:
  "fst (RunOnce_loop force urns w) = Inr () \<Longrightarrow>
   lock_attempts (snd (RunOnce_loop force urns w)) =
     lock_attempts w @ map (\<lambda>u. (u, False, 600)) urns"
proof (induction urns arbitrary: w)
  case Nil
  show ?case by simp
next
  case (Cons v urns)
  show ?case
  proof (cases "OpenWithLock v 600 w")
    case (Pair a w1)
    show ?thesis
    proof (cases a)
      case (Inl e)
      with Pair have o: "OpenWithLock v 600 w = (Inl e, w1)" by simp
      from OpenWithLock_Inl [OF o] have w1: "w1 = emit (AcquireLock v False 600) w" by simp
      from Cons.prems have e: "e = LockError"
        by (simp add: o split: if_splits)
      have step: "RunOnce_loop force (v # urns) w = RunOnce_loop force urns w1"
        by (simp add: o e)
      from Cons.prems Cons.IH [of w1] show ?thesis
        by (simp add: step w1 lock_attempts_emit del: RunOnce_loop.simps)
    next
      case (Inr obj)
      with Pair have o: "OpenWithLock v 600 w = (Inr obj, w1)" by simp
      from RunOnce_loop_turn [OF o, of force urns]
      obtain res obj1 w2 w3 e where
        r: "Run force obj (emit (LogInfo (urn obj)) w1) = (res, obj1, w2)" and
        step: "RunOnce_loop force (v # urns) w = RunOnce_loop force urns w3" and
        w3: "w3 = Close obj1 (emit (IncrementCounter ''cron_internal_error'' [])
            (emit (LogException (urn obj1) e) w2)) \<or> w3 = Close obj1 w2"
        by blast
      from locked_turn_attempts [OF o r w3]
      have "lock_attempts w3 = lock_attempts w @ [(v, False, 600)]" .
      with Cons.prems Cons.IH [of w3] show ?thesis
        by (simp add: step del: RunOnce_loop.simps)
    qed
  qed
qed

lemma RunOnce_loop_existing:
  "\<forall>u\<in>set urns. map_of (cron_jobs w) u \<noteq> None \<Longrightarrow> fst (RunOnce_loop force urns w) = Inr ()"
proof (induction urns arbitrary: w)
  case Nil
  show ?case by simp
next
  case (Cons v urns)
  show ?case
  proof (cases "OpenWithLock v 600 w")
    case (Pair a w1)
    show ?thesis
    proof (cases a)
      case (Inl e)
      with Pair have o: "OpenWithLock v 600 w = (Inl e, w1)" by simp
      note f = OpenWithLock_Inl [OF o]
      from f Cons.prems have e: "e = LockError"
        by (auto split: if_splits)
      from f have w1: "cron_jobs w1 = cron_jobs w" by simp
      have step: "RunOnce_loop force (v # urns) w = RunOnce_loop force urns w1"
        by (simp add: o e)
      from Cons.prems Cons.IH [of w1] show ?thesis
        by (simp add: step w1 del: RunOnce_loop.simps)
    next
      case (Inr obj)
      with Pair have o: "OpenWithLock v 600 w = (Inr obj, w1)" by simp
      from RunOnce_loop_turn [OF o, of force urns]
      obtain res obj1 w2 w3 e where
        r: "Run force obj (emit (LogInfo (urn obj)) w1) = (res, obj1, w2)" and
        step: "RunOnce_loop force (v # urns) w = RunOnce_loop force urns w3" and
        w3: "w3 = Close obj1 (emit (IncrementCounter ''cron_internal_error'' [])
            (emit (LogException (urn obj1) e) w2)) \<or> w3 = Close obj1 w2"
        by blast
      note t = locked_turn_frame [OF o r w3]
      have "\<forall>u\<in>set urns. map_of (cron_jobs w3) u \<noteq> None"
      proof
        fix u assume "u \<in> set urns"
        with Cons.prems have "map_of (cron_jobs w) u \<noteq> None" by simp
        with t show "map_of (cron_jobs w3) u \<noteq> None"
          by (cases "u = v") simp_all
      qed
      from Cons.IH [OF this] show ?thesis
        by (simp add: step del: RunOnce_loop.simps)
    qed
  qed
qed

lemma ListChildren_member:
  "u \<in> set (ListChildren objs parent) \<Longrightarrow>
   Add parent (Basename u) = u \<and> map_of objs u \<noteq> None"
  by (auto simp: ListChildren_def Add_def Basename_def map_of_eq_None_iff
      intro: rev_image_eqI)

lemma RunOnce_listed_jobs:
  "names = None \<or> names = Some [] \<Longrightarrow> fst (RunOnce force names w) = Inr ()"
proof -
  assume n: "names = None \<or> names = Some []"
  have "map (Add CRON_JOBS_PATH) (ListJobs w) = ListChildren (cron_jobs w) CRON_JOBS_PATH"
    by (simp add: ListJobs_def map_idI ListChildren_member)
  moreover have "\<forall>u\<in>set (ListChildren (cron_jobs w) CRON_JOBS_PATH).
      map_of (cron_jobs w) u \<noteq> None"
    by (simp add: ListChildren_member)
  ultimately show ?thesis
    using n by (auto simp: RunOnce_def RunOnce_loop_existing)
qed

subsection \<open>\<^verbatim>\<open>CreateJob\<close> and \<^verbatim>\<open>DeleteOldRuns\<close>\<close>

lemma CreateJob_given_id:
  assumes "job_id \<noteq> []"
  shows "CreateJob cron_args (Some job_id) enabled w =
    (job_id,
     Close ((Create (Add CRON_JOBS_PATH job_id) w)
        \<lparr>CRON_ARGS := Some
           (case CRON_ARGS (Create (Add CRON_JOBS_PATH job_id) w) of
              None \<Rightarrow> new_cron_args cron_args w
            | Some existing \<Rightarrow>
                if start_time existing \<noteq> 0
                then (new_cron_args cron_args w)\<lparr>start_time := start_time existing\<rparr>
                else new_cron_args cron_args w),
         DISABLED := \<not> enabled\<rparr>) w)"
proof -
  obtain c cs where j: "job_id = c # cs"
    using assms by (cases job_id) auto
  have same: "r\<lparr>CRON_ARGS := x\<rparr> = r" if "CRON_ARGS r = x" for r :: CronJob and x
    using that by (cases r) simp
  show ?thesis
    unfolding j CreateJob_def Let_def
    by (cases "CRON_ARGS (Create (Add CRON_JOBS_PATH (c # cs)) w)") (auto simp: same)
qed

lemma urn_Create [simp]: "urn (Create u w) = u"
  by (simp add: Create_def new_CronJob_def split: option.splits)

lemma CRON_ARGS_Create:
  "CRON_ARGS (Create (Add CRON_JOBS_PATH job_id) w) = stored_args w job_id"
  by (simp add: Create_def new_CronJob_def stored_args_def ReadJob_def split: option.splits)

lemma stored_args_Close:
  "urn obj = Add CRON_JOBS_PATH job_id \<Longrightarrow> stored_args (Close obj w) job_id = CRON_ARGS obj"
  by (simp add: stored_args_def ReadJob_def Close_def update_conv')

lemma stored_args_CreateJob:
  assumes "job_id \<noteq> []"
  shows "stored_args (snd (CreateJob cron_args (Some job_id) enabled w)) job_id =
    Some (case stored_args w job_id of
            None \<Rightarrow> new_cron_args cron_args w
          | Some existing \<Rightarrow>
              if start_time existing \<noteq> 0
              then (new_cron_args cron_args w)\<lparr>start_time := start_time existing\<rparr>
              else new_cron_args cron_args w)"
  by (simp add: CreateJob_given_id [OF assms] stored_args_Close CRON_ARGS_Create)

lemma stored_args_clock [simp]: "stored_args (w\<lparr>clock := t\<rparr>) job_id = stored_args w job_id"
  by (simp add: stored_args_def ReadJob_def)

lemma ListChildren_age_filter:
  "ListChildren_age w parent cutoff = map fst (filter (old_run parent cutoff) (flows w))"
proof -
  have "ListChildren [(u, f) \<leftarrow> xs. created f < cutoff] parent =
      map fst (filter (old_run parent cutoff) xs)" for xs :: "(urn \<times> GRRFlow) list"
    by (induction xs) (auto simp: ListChildren_def old_run_def split: if_splits)
  then show ?thesis by (simp add: ListChildren_age_def)
qed

lemma filter_not_listed:
  assumes "distinct (map fst xs)"
  shows "[(u, f) \<leftarrow> xs. u \<notin> set (map fst (filter P xs))] = filter (\<lambda>x. \<not> P x) xs"
proof (rule filter_cong [OF refl])
  fix x assume x: "x \<in> set xs"
  obtain u f where uf: "x = (u, f)" by (cases x)
  have "u \<in> fst ` set (filter P xs) \<longleftrightarrow> P (u, f)"
  proof
    assume "u \<in> fst ` set (filter P xs)"
    then obtain f' where f': "(u, f') \<in> set xs" "P (u, f')" by auto
    with assms x uf have "f' = f" by (auto dest: eq_key_imp_eq_value)
    with f' show "P (u, f)" by simp
  next
    assume "P (u, f)"
    with x uf show "u \<in> fst ` set (filter P xs)" by force
  qed
  then show "(case x of (u, f) \<Rightarrow> u \<notin> set (map fst (filter P xs))) = (\<not> P x)"
    by (simp add: uf)
qed

section \<open>The claims\<close>

subsection \<open>Reaping a run that exceeded its lifetime\<close>

text \<open>
  Claim C1, as amended. For every locked job with a finite (non-zero) lifetime whose
  tracked run the engine reports as still running: if \<open>now - last_run_time > lifetime\<close>
  when \<^verbatim>\<open>Run\<close> starts, then the evaluation first asks the engine to terminate the
  handle, records the status \<open>TIMEOUT\<close>, clears the handle, counts the timeout and
  records the latency, and only then goes through the due-time logic, on the reaped
  record; so the reap does not depend on the job being due or on \<open>force\<close>. At the end
  of the evaluation the terminate request is in the journal, the newest status is
  \<open>TIMEOUT\<close>, and the handle is unset unless this same evaluation started a new run,
  whose handle it then is.
\<close>

theorem Run_reaps_overrun_first:
  assumes "locked self" "CRON_ARGS self = Some cron_args" "lifetime cron_args \<noteq> 0"
    "CURRENT_FLOW_URN self = Some h" "OpenFlow w h = Some f" "state f = RUNNING"
    "LAST_RUN_TIME self = Some t" "clock w - t > lifetime cron_args"
  shows "Run force self w =
      Run_start force
        (self\<lparr>LAST_RUN_STATUS := LAST_RUN_STATUS self @ [TIMEOUT], CURRENT_FLOW_URN := None\<rparr>)
        (emit (RecordEvent ''cron_job_latency'' (clock w - t) [Basename (urn self)])
           (emit (IncrementCounter ''cron_job_timeout'' [Basename (urn self)])
              (emit (TerminateAFF4Flow h ''Cron lifetime exceeded.'') w))) \<and>
    (case Run force self w of
       (r, self', w') \<Rightarrow>
         TerminateAFF4Flow h ''Cron lifetime exceeded.'' \<in> set (journal w') \<and>
         LAST_RUN_STATUS self' = LAST_RUN_STATUS self @ [TIMEOUT] \<and>
         (CURRENT_FLOW_URN self' = None \<and> started w' = started w \<or>
          (\<exists>u. CURRENT_FLOW_URN self' = Some u \<and> started w' = started w @ [u])))"
proof -
  let ?self1 = "self\<lparr>LAST_RUN_STATUS := LAST_RUN_STATUS self @ [TIMEOUT], CURRENT_FLOW_URN := None\<rparr>"
  let ?w1 = "emit (RecordEvent ''cron_job_latency'' (clock w - t) [Basename (urn self)])
           (emit (IncrementCounter ''cron_job_timeout'' [Basename (urn self)])
              (emit (TerminateAFF4Flow h ''Cron lifetime exceeded.'') w))"
  have eq: "Run force self w = Run_start force ?self1 ?w1"
    using assms(1)
    by (simp add: Run_def KillOldFlows_timeout [OF assms(2-8)] Run_finished_idle)
  obtain r self' w' where s: "Run_start force ?self1 ?w1 = (r, self', w')"
    by (cases "Run_start force ?self1 ?w1") auto
  from Run_start_outcome [OF s]
  have "TerminateAFF4Flow h ''Cron lifetime exceeded.'' \<in> set (journal w') \<and>
         LAST_RUN_STATUS self' = LAST_RUN_STATUS self @ [TIMEOUT] \<and>
         (CURRENT_FLOW_URN self' = None \<and> started w' = started w \<or>
          (\<exists>u. CURRENT_FLOW_URN self' = Some u \<and> started w' = started w @ [u]))"
    by (auto simp: started_emit)
  with eq s show ?thesis by simp
qed

text \<open>
  At time 1000 the run of job \<open>A\<close>, started at 200 with a lifetime of 600, is still
  running: the evaluation terminates it although the job is not due.
\<close>

theorem Run_reaps_overrun_first_witness:
  "locked example_job \<and> CRON_ARGS example_job = Some example_args \<and>
   lifetime example_args \<noteq> 0 \<and>
   CURRENT_FLOW_URN example_job = Some [''cron'', ''A'', ''F:0''] \<and>
   OpenFlow (example_world RUNNING 1000) [''cron'', ''A'', ''F:0''] =
     Some \<lparr>state = RUNNING, created = 200\<rparr> \<and>
   LAST_RUN_TIME example_job = Some 200 \<and>
   clock (example_world RUNNING 1000) - 200 > lifetime example_args \<and>
   DueToRun (example_job\<lparr>LAST_RUN_STATUS := [TIMEOUT], CURRENT_FLOW_URN := None\<rparr>)
     (example_world RUNNING 1000) = Inr False \<and>
   Run False example_job (example_world RUNNING 1000) =
     (Inr (),
      example_job\<lparr>LAST_RUN_STATUS := [TIMEOUT], CURRENT_FLOW_URN := None\<rparr>,
      (example_world RUNNING 1000)\<lparr>journal :=
         [TerminateAFF4Flow [''cron'', ''A'', ''F:0''] ''Cron lifetime exceeded.'',
          IncrementCounter ''cron_job_timeout'' [''A''],
          RecordEvent ''cron_job_latency'' 800 [''A'']]\<rparr>)"
proof -
  have h: "locked example_job" "CRON_ARGS example_job = Some example_args"
    "lifetime example_args \<noteq> 0"
    "CURRENT_FLOW_URN example_job = Some [''cron'', ''A'', ''F:0'']"
    "OpenFlow (example_world RUNNING 1000) [''cron'', ''A'', ''F:0''] =
       Some \<lparr>state = RUNNING, created = 200\<rparr>"
    "state \<lparr>state = RUNNING, created = 200\<rparr> = RUNNING"
    "LAST_RUN_TIME example_job = Some 200"
    "clock (example_world RUNNING 1000) - 200 > lifetime example_args"
    by (simp_all add: example_defs OpenFlow_def)
  have d: "DueToRun (example_job\<lparr>LAST_RUN_STATUS := [TIMEOUT], CURRENT_FLOW_URN := None\<rparr>)
     (example_world RUNNING 1000) = Inr False"
    by (simp add: example_defs DueToRun_def Expiry_def)
  have s: "Run_start False
        (example_job\<lparr>LAST_RUN_STATUS := LAST_RUN_STATUS example_job @ [TIMEOUT],
           CURRENT_FLOW_URN := None\<rparr>)
        (emit (RecordEvent ''cron_job_latency'' (clock (example_world RUNNING 1000) - 200)
                 [Basename (urn example_job)])
           (emit (IncrementCounter ''cron_job_timeout'' [Basename (urn example_job)])
              (emit (TerminateAFF4Flow [''cron'', ''A'', ''F:0''] ''Cron lifetime exceeded.'')
                 (example_world RUNNING 1000)))) =
     (Inr (),
      example_job\<lparr>LAST_RUN_STATUS := [TIMEOUT], CURRENT_FLOW_URN := None\<rparr>,
      (example_world RUNNING 1000)\<lparr>journal :=
         [TerminateAFF4Flow [''cron'', ''A'', ''F:0''] ''Cron lifetime exceeded.'',
          IncrementCounter ''cron_job_timeout'' [''A''],
          RecordEvent ''cron_job_latency'' 800 [''A'']]\<rparr>)"
    by (simp add: example_defs Run_start_def DueToRun_def Expiry_def emit_def Basename_def)
  from Run_reaps_overrun_first [OF h, of False]
  have "Run False example_job (example_world RUNNING 1000) =
     (Inr (),
      example_job\<lparr>LAST_RUN_STATUS := [TIMEOUT], CURRENT_FLOW_URN := None\<rparr>,
      (example_world RUNNING 1000)\<lparr>journal :=
         [TerminateAFF4Flow [''cron'', ''A'', ''F:0''] ''Cron lifetime exceeded.'',
          IncrementCounter ''cron_job_timeout'' [''A''],
          RecordEvent ''cron_job_latency'' 800 [''A'']]\<rparr>)"
    by (simp only: s)
  with h d show ?thesis by simp
qed

text \<open>
  Claim C1 as stated does not hold for a tracked run that the engine reports as
  finished: \<^verbatim>\<open>KillOldFlows\<close> returns at once when \<^verbatim>\<open>IsRunning()\<close> is false. The
  same job at the same time, its flow terminated: no terminate request, and the status
  recorded is \<open>OK\<close>.
\<close>

theorem Run_overrun_counterexample:
  "locked example_job \<and> CRON_ARGS example_job = Some example_args \<and>
   lifetime example_args \<noteq> 0 \<and>
   CURRENT_FLOW_URN example_job = Some [''cron'', ''A'', ''F:0''] \<and>
   LAST_RUN_TIME example_job = Some 200 \<and>
   clock (example_world TERMINATED 1000) - 200 > lifetime example_args \<and>
   Run False example_job (example_world TERMINATED 1000) =
     (Inr (),
      example_job\<lparr>LAST_RUN_STATUS := [OK], CURRENT_FLOW_URN := None\<rparr>,
      (example_world TERMINATED 1000)\<lparr>journal :=
         [RecordEvent ''cron_job_latency'' 800 [''A'']]\<rparr>)"
  by (simp add: example_defs Run_def KillOldFlows_def IsRunning_def OpenFlow_def
      Run_finished_def Run_start_def DueToRun_def Expiry_def emit_def Basename_def)

subsection \<open>The due decision\<close>

text \<open>
  Claim C2. On every job record that keeps the invariant that a tracked run has a start
  time (every record the scheduler writes: \<open>new_CronJob_tracked\<close>,
  \<open>CreateJob_tracked\<close>, \<open>Run_tracked_run_has_time\<close>), \<^verbatim>\<open>DueToRun\<close> is the decision
  of the specification: it is false for a disabled job whatever its other fields, with
  or without arguments; and for a job with arguments it is false when disabled, false
  when \<open>now < start_time\<close>, true when the last run time is unset and the start time
  has passed, and otherwise true exactly when \<open>now > Expiry(last_run_time, periodicity)\<close>
  and overruns are allowed or no run is tracked.
\<close>

theorem DueToRun_as_specified:
  assumes "tracked_run_has_time self"
  shows "(DISABLED self \<longrightarrow> DueToRun self w = Inr False) \<and>
    (CRON_ARGS self = Some cron_args \<longrightarrow>
       DueToRun self w = Inr (spec_DueToRun self cron_args (clock w)))"
  using assms
  by (auto simp: DueToRun_def spec_DueToRun_def tracked_run_has_time_def Let_def
      split: option.splits)

text \<open>
  Job \<open>A\<close>, whose run started at 200 is tracked, is not due at 500; a job that never
  ran is due at 1000, its start time 100 having passed; a disabled job without arguments
  is not due.
\<close>

theorem DueToRun_as_specified_witness:
  "tracked_run_has_time example_job \<and> CRON_ARGS example_job = Some example_args \<and>
   DueToRun example_job (example_world RUNNING 500) = Inr False \<and>
   tracked_run_has_time (idle_job ''B'') \<and> CRON_ARGS (idle_job ''B'') = Some example_args \<and>
   LAST_RUN_TIME (idle_job ''B'') = None \<and>
   DueToRun (idle_job ''B'') (store_world [] []) = Inr True \<and>
   tracked_run_has_time (new_CronJob [''cron'', ''C'']\<lparr>DISABLED := True\<rparr>) \<and>
   DISABLED (new_CronJob [''cron'', ''C'']\<lparr>DISABLED := True\<rparr>) \<and>
   DueToRun (new_CronJob [''cron'', ''C'']\<lparr>DISABLED := True\<rparr>) (store_world [] []) =
     Inr False"
proof -
  have t: "tracked_run_has_time example_job" "tracked_run_has_time (idle_job ''B'')"
    "tracked_run_has_time (new_CronJob [''cron'', ''C'']\<lparr>DISABLED := True\<rparr>)"
    by (simp_all add: tracked_run_has_time_def example_job_def idle_job_def new_CronJob_def)
  have a: "CRON_ARGS example_job = Some example_args"
    "CRON_ARGS (idle_job ''B'') = Some example_args" "LAST_RUN_TIME (idle_job ''B'') = None"
    "DISABLED (new_CronJob [''cron'', ''C'']\<lparr>DISABLED := True\<rparr>)"
    by (simp_all add: example_job_def idle_job_def)
  have s: "\<not> spec_DueToRun example_job example_args (clock (example_world RUNNING 500))"
    "spec_DueToRun (idle_job ''B'') example_args (clock (store_world [] []))"
    by (simp_all add: spec_DueToRun_def example_defs idle_job_def store_world_def Expiry_def)
  from DueToRun_as_specified [OF t(1), of "example_world RUNNING 500" example_args]
    DueToRun_as_specified [OF t(2), of "store_world [] []" example_args]
    DueToRun_as_specified [OF t(3), of "store_world [] []" example_args]
    t a s
  show ?thesis by simp
qed

text \<open>
  The code itself, on any record. Outside the invariant (a tracked run without a last
  run time, a record that \<^verbatim>\<open>Run\<close> never writes) the overrun check still applies.
\<close>

lemma DueToRun_exact:
  "DueToRun self w =
     (if DISABLED self then Inr False
      else
        (case CRON_ARGS self of
           None \<Rightarrow> Inl AttributeError
         | Some cron_args \<Rightarrow>
             Inr (start_time cron_args \<le> clock w \<and>
                  (case LAST_RUN_TIME self of
                     None \<Rightarrow> True
                   | Some t \<Rightarrow> clock w > Expiry (periodicity cron_args) t) \<and>
                  (allow_overruns cron_args \<or> CURRENT_FLOW_URN self = None))))"
  by (auto simp: DueToRun_def Let_def split: option.splits)

subsection \<open>No second run over a tracked one\<close>

text \<open>
  Claim C3, as amended. For every locked job with \<open>allow_overruns = false\<close> whose
  tracked run the engine reports as running and which has not exceeded its lifetime, an
  evaluation without \<open>force\<close> starts nothing and changes nothing: the record, with its
  handle, and the world are as before.
\<close>

theorem Run_keeps_tracked_run:
  assumes "locked self" "CRON_ARGS self = Some cron_args" "\<not> allow_overruns cron_args"
    "CURRENT_FLOW_URN self = Some h" "OpenFlow w h = Some f" "state f = RUNNING"
    "LAST_RUN_TIME self = Some t" "\<not> (lifetime cron_args \<noteq> 0 \<and> clock w - t > lifetime cron_args)"
  shows "Run False self w = (Inr (), self, w)"
  using assms(1,2,3,4,7)
  by (simp add: Run_def KillOldFlows_within_lifetime [OF assms(2,4,5,6,7,8)]
      Run_finished_running [OF assms(4,5,6)] Run_start_def DueToRun_def Let_def)

theorem Run_keeps_tracked_run_witness:
  "locked example_job \<and> CRON_ARGS example_job = Some example_args \<and>
   \<not> allow_overruns example_args \<and>
   CURRENT_FLOW_URN example_job = Some [''cron'', ''A'', ''F:0''] \<and>
   OpenFlow (example_world RUNNING 500) [''cron'', ''A'', ''F:0''] =
     Some \<lparr>state = RUNNING, created = 200\<rparr> \<and>
   LAST_RUN_TIME example_job = Some 200 \<and>
   \<not> (lifetime example_args \<noteq> 0 \<and> clock (example_world RUNNING 500) - 200 > lifetime example_args) \<and>
   Run False example_job (example_world RUNNING 500) =
     (Inr (), example_job, example_world RUNNING 500)"
proof -
  have h: "locked example_job" "CRON_ARGS example_job = Some example_args"
    "\<not> allow_overruns example_args"
    "CURRENT_FLOW_URN example_job = Some [''cron'', ''A'', ''F:0'']"
    "OpenFlow (example_world RUNNING 500) [''cron'', ''A'', ''F:0''] =
       Some \<lparr>state = RUNNING, created = 200\<rparr>"
    "state \<lparr>state = RUNNING, created = 200\<rparr> = RUNNING"
    "LAST_RUN_TIME example_job = Some 200"
    "\<not> (lifetime example_args \<noteq> 0 \<and>
        clock (example_world RUNNING 500) - 200 > lifetime example_args)"
    by (simp_all add: example_defs OpenFlow_def)
  from Run_keeps_tracked_run [OF h] h show ?thesis by simp
qed

text \<open>
  Claim C3 as stated includes evaluations with \<open>force\<close>. With \<open>force\<close> the due check
  is skipped ("the job will run no matter what"): job \<open>A\<close>, overruns not allowed, its
  run \<open>F:0\<close> still running, gets a second run \<open>F:1\<close>, and the handle changes.
\<close>

theorem Run_forced_overrun_counterexample:
  "locked example_job \<and> CRON_ARGS example_job = Some example_args \<and>
   \<not> allow_overruns example_args \<and>
   CURRENT_FLOW_URN example_job = Some [''cron'', ''A'', ''F:0''] \<and>
   OpenFlow (example_world RUNNING 500) [''cron'', ''A'', ''F:0''] =
     Some \<lparr>state = RUNNING, created = 200\<rparr> \<and>
   (case Run True example_job (example_world RUNNING 500) of
      (r, self', w') \<Rightarrow>
        r = Inr () \<and> CURRENT_FLOW_URN self' = Some [''cron'', ''A'', ''F:1''] \<and>
        started w' = [[''cron'', ''A'', ''F:1'']] \<and>
        map (\<lambda>(u, f). (u, state f)) (flows w') =
          [([''cron'', ''A'', ''F:0''], RUNNING), ([''cron'', ''A'', ''F:1''], RUNNING)])"
  by (simp add: example_defs run_defs started_def)

subsection \<open>Disabled jobs\<close>

text \<open>
  Claim C4, as amended. For every disabled job an evaluation without \<open>force\<close> starts no
  run, whatever else it does or raises: the flows of the engine and the runs started are
  as before, the last run time is unchanged, and the handle is unchanged or cleared.
\<close>

theorem Run_disabled_starts_nothing:
  assumes "DISABLED self"
  shows "case Run False self w of (r, self', w') \<Rightarrow>
    flows w' = flows w \<and> started w' = started w \<and>
    LAST_RUN_TIME self' = LAST_RUN_TIME self \<and>
    (CURRENT_FLOW_URN self' = CURRENT_FLOW_URN self \<or> CURRENT_FLOW_URN self' = None)"
proof (cases "locked self")
  case False
  then show ?thesis by (simp add: Run_def)
next
  case True
  obtain r1 self1 w1 where k: "KillOldFlows self w = (r1, self1, w1)"
    by (cases "KillOldFlows self w") auto
  obtain r2 self2 w2 where f: "Run_finished self1 w1 = (r2, self2, w2)"
    by (cases "Run_finished self1 w1") auto
  from KillOldFlows_frame [OF k] Run_finished_frame [OF f] assms
  have d: "DISABLED self2" by simp
  show ?thesis
    using True KillOldFlows_frame [OF k] Run_finished_frame [OF f]
    by (auto simp: Run_def k f Run_start_disabled [OF d] nothing_started_def
        split: sum.splits)
qed

theorem Run_disabled_starts_nothing_witness:
  "DISABLED (example_job\<lparr>DISABLED := True\<rparr>) \<and>
   (case Run False (example_job\<lparr>DISABLED := True\<rparr>) (example_world TERMINATED 500) of
      (r, self', w') \<Rightarrow>
        flows w' = flows (example_world TERMINATED 500) \<and>
        started w' = started (example_world TERMINATED 500) \<and>
        LAST_RUN_TIME self' = Some 200 \<and> CURRENT_FLOW_URN self' = None)"
proof -
  have d: "DISABLED (example_job\<lparr>DISABLED := True\<rparr>)" by simp
  have "CURRENT_FLOW_URN
      (fst (snd (Run False (example_job\<lparr>DISABLED := True\<rparr>) (example_world TERMINATED 500)))) =
      None"
    by (simp add: example_defs run_defs)
  with Run_disabled_starts_nothing [OF d, of "example_world TERMINATED 500"] d
  show ?thesis
    by (auto simp: example_job_def split: prod.splits)
qed

text \<open>
  Claim C4 as stated includes a start requested by \<open>force\<close>. \<^verbatim>\<open>Run\<close> looks at the
  disabled flag only inside \<^verbatim>\<open>DueToRun\<close>, which \<open>force\<close> skips: the disabled job
  \<open>A\<close>, run with \<open>force\<close>, starts the flow \<open>F:1\<close>.
\<close>

theorem Run_forced_disabled_counterexample:
  "locked (example_job\<lparr>DISABLED := True\<rparr>) \<and> DISABLED (example_job\<lparr>DISABLED := True\<rparr>) \<and>
   (case Run True (example_job\<lparr>DISABLED := True\<rparr>) (example_world TERMINATED 500) of
      (r, self', w') \<Rightarrow>
        r = Inr () \<and> CURRENT_FLOW_URN self' = Some [''cron'', ''A'', ''F:1''] \<and>
        LAST_RUN_TIME self' = Some 500 \<and>
        started w' = [[''cron'', ''A'', ''F:1'']])"
  by (simp add: example_defs run_defs started_def)

subsection \<open>A lease held by another worker\<close>

text \<open>
  Claim C5. \<^verbatim>\<open>RunOnce\<close> asks for the lock of each job in \<open>names\<close> (all listed jobs
  when none are given), never blocking and with a lease time of 600. When the lease of a
  job is held, the loop goes on with the remaining jobs from the same world, to which
  only the journal entry of the attempt was added; the pass as a whole never raises
  \<^verbatim>\<open>LockError\<close> and leaves that job's record as it was; and a pass that completes
  has asked exactly once per name, in order, each time without blocking and for 600.
\<close>

theorem RunOnce_skips_leased_job:
  assumes "lease_held w (Add CRON_JOBS_PATH name)"
  shows "RunOnce_loop force (Add CRON_JOBS_PATH name # urns) w =
      RunOnce_loop force urns (emit (AcquireLock (Add CRON_JOBS_PATH name) False 600) w) \<and>
    (case RunOnce force names w of
       (r, w') \<Rightarrow>
         r \<noteq> Inl LockError \<and> ReadJob w' name = ReadJob w name \<and>
         (r = Inr () \<longrightarrow>
            lock_attempts w' =
              lock_attempts w @
              map (\<lambda>n. (Add CRON_JOBS_PATH n, False, 600))
                (case names of Some (n # ns) \<Rightarrow> n # ns | _ \<Rightarrow> ListJobs w)))"
proof -
  let ?names = "case names of Some (n # ns) \<Rightarrow> n # ns | _ \<Rightarrow> ListJobs w"
  let ?urns = "map (Add CRON_JOBS_PATH) ?names"
  have run: "RunOnce force names w = RunOnce_loop force ?urns w"
    by (simp add: RunOnce_def)
  obtain r w' where res: "RunOnce_loop force ?urns w = (r, w')"
    by (cases "RunOnce_loop force ?urns w") auto
  from RunOnce_loop_held [OF assms, of force ?urns]
  have held: "r \<noteq> Inl LockError \<and> ReadJob w' name = ReadJob w name"
    by (simp add: res ReadJob_def)
  from RunOnce_loop_attempts [of force ?urns w]
  have att: "r = Inr () \<longrightarrow>
      lock_attempts w' = lock_attempts w @ map (\<lambda>n. (Add CRON_JOBS_PATH n, False, 600)) ?names"
    by (simp add: res comp_def)
  from held att show ?thesis
    by (simp add: run res OpenWithLock_held [OF assms])
qed

text \<open>
  Jobs \<open>A\<close> and \<open>B\<close>, the lease of \<open>A\<close> held until 1300: the pass at time 1000 skips
  \<open>A\<close> and starts \<open>B\<close>.
\<close>

theorem RunOnce_skips_leased_job_witness:
  "lease_held
     (store_world [([''cron'', ''A''], idle_job ''A''), ([''cron'', ''B''], idle_job ''B'')]
        [([''cron'', ''A''], 1300)])
     (Add CRON_JOBS_PATH ''A'') \<and>
   (case RunOnce False (Some [''A'', ''B''])
           (store_world [([''cron'', ''A''], idle_job ''A''), ([''cron'', ''B''], idle_job ''B'')]
              [([''cron'', ''A''], 1300)]) of
      (r, w') \<Rightarrow>
        r = Inr () \<and> ReadJob w' ''A'' = Some (idle_job ''A'') \<and>
        lock_attempts w' = [([''cron'', ''A''], False, 600), ([''cron'', ''B''], False, 600)] \<and>
        started w' = [[''cron'', ''B'', ''F:0'']])"
proof -
  let ?w = "store_world [([''cron'', ''A''], idle_job ''A''), ([''cron'', ''B''], idle_job ''B'')]
        [([''cron'', ''A''], 1300)]"
  have h: "lease_held ?w (Add CRON_JOBS_PATH ''A'')"
    by (simp add: lease_held_def store_world_def Add_def CRON_JOBS_PATH_def)
  have r: "fst (RunOnce False (Some [''A'', ''B'']) ?w) = Inr ()"
    "started (snd (RunOnce False (Some [''A'', ''B'']) ?w)) = [[''cron'', ''B'', ''F:0'']]"
    by (simp_all add: RunOnce_def CRON_JOBS_PATH_def OpenWithLock_def lease_held_def
        store_world_def idle_job_def example_args_def Close_def run_defs started_def)
  have a: "ReadJob ?w ''A'' = Some (idle_job ''A'')" "lock_attempts ?w = []"
    by (simp_all add: ReadJob_def store_world_def Add_def CRON_JOBS_PATH_def lock_attempts_def)
  from RunOnce_skips_leased_job [OF h, of False "[]" "Some [''A'', ''B'']"] h r a
  show ?thesis
    by (auto simp: Add_def CRON_JOBS_PATH_def split: prod.splits)
qed

subsection \<open>\<^verbatim>\<open>Run\<close> without the lock\<close>

text \<open>
  Claim C6. \<^verbatim>\<open>Run\<close> on an object that is not locked raises \<^verbatim>\<open>LockError\<close> (the
  specification's LockNotHeldError) before anything else happens: the object and the
  world are unchanged.
\<close>

theorem Run_requires_lock: "\<not> locked self \<Longrightarrow> Run force self w = (Inl LockError, self, w)"
  by (simp add: Run_def)

theorem Run_requires_lock_witness:
  "\<not> locked (example_job\<lparr>locked := False\<rparr>) \<and>
   Run True (example_job\<lparr>locked := False\<rparr>) (example_world RUNNING 1000) =
     (Inl LockError, example_job\<lparr>locked := False\<rparr>, example_world RUNNING 1000)"
  using Run_requires_lock [of "example_job\<lparr>locked := False\<rparr>" True "example_world RUNNING 1000"]
  by simp

subsection \<open>An exception in one job's evaluation\<close>

text \<open>
  Claim C7. When \<^verbatim>\<open>Run\<close> raises for a job that \<^verbatim>\<open>RunOnce\<close> has locked, the
  exception is logged, the counter \<^verbatim>\<open>cron_internal_error\<close> is incremented, the object
  is closed with what was set before the exception, and the loop goes on with the
  remaining jobs; the pass returns normally when the remaining names are jobs of the
  store.
\<close>

theorem RunOnce_contains_exceptions:
  assumes "OpenWithLock u 600 w = (Inr cron_job, w1)"
    and "Run force cron_job (emit (LogInfo (urn cron_job)) w1) = (Inl e, cron_job1, w2)"
  shows "RunOnce_loop force (u # urns) w =
      RunOnce_loop force urns
        (Close cron_job1
           (emit (IncrementCounter ''cron_internal_error'' [])
              (emit (LogException (urn cron_job1) e) w2))) \<and>
    ((\<forall>v\<in>set urns. map_of (cron_jobs w) v \<noteq> None) \<longrightarrow>
       fst (RunOnce_loop force (u # urns) w) = Inr ())"
proof -
  from assms(1) have "map_of (cron_jobs w) u \<noteq> None"
    by (auto simp: OpenWithLock_def Let_def split: if_splits option.splits)
  then have "(\<forall>v\<in>set urns. map_of (cron_jobs w) v \<noteq> None) \<longrightarrow>
       fst (RunOnce_loop force (u # urns) w) = Inr ()"
    using RunOnce_loop_existing [of "u # urns" w force] by simp
  then show ?thesis
    by (simp add: assms)
qed

text \<open>
  A job \<open>C\<close> without arguments makes \<^verbatim>\<open>DueToRun\<close> raise; the pass over \<open>C\<close> and
  \<open>B\<close> logs and counts the exception and then starts \<open>B\<close>.
\<close>

theorem RunOnce_contains_exceptions_witness:
  "OpenWithLock [''cron'', ''C''] 600
       (store_world [([''cron'', ''C''], new_CronJob [''cron'', ''C'']),
                     ([''cron'', ''B''], idle_job ''B'')] []) =
     (Inr ((new_CronJob [''cron'', ''C''])\<lparr>locked := True\<rparr>),
      (store_world [([''cron'', ''C''], new_CronJob [''cron'', ''C'']),
                    ([''cron'', ''B''], idle_job ''B'')] [([''cron'', ''C''], 1600)])
        \<lparr>journal := [AcquireLock [''cron'', ''C''] False 600]\<rparr>) \<and>
   Run False ((new_CronJob [''cron'', ''C''])\<lparr>locked := True\<rparr>)
       (emit (LogInfo (urn ((new_CronJob [''cron'', ''C''])\<lparr>locked := True\<rparr>)))
          ((store_world [([''cron'', ''C''], new_CronJob [''cron'', ''C'']),
                         ([''cron'', ''B''], idle_job ''B'')] [([''cron'', ''C''], 1600)])
             \<lparr>journal := [AcquireLock [''cron'', ''C''] False 600]\<rparr>)) =
     (Inl AttributeError, (new_CronJob [''cron'', ''C''])\<lparr>locked := True\<rparr>,
      (store_world [([''cron'', ''C''], new_CronJob [''cron'', ''C'']),
                    ([''cron'', ''B''], idle_job ''B'')] [([''cron'', ''C''], 1600)])
        \<lparr>journal := [AcquireLock [''cron'', ''C''] False 600, LogInfo [''cron'', ''C'']]\<rparr>) \<and>
   (case RunOnce_loop False [[''cron'', ''C''], [''cron'', ''B'']]
           (store_world [([''cron'', ''C''], new_CronJob [''cron'', ''C'']),
                         ([''cron'', ''B''], idle_job ''B'')] []) of
      (r, w') \<Rightarrow>
        r = Inr () \<and>
        journal w' =
          [AcquireLock [''cron'', ''C''] False 600, LogInfo [''cron'', ''C''],
           LogException [''cron'', ''C''] AttributeError,
           IncrementCounter ''cron_internal_error'' [],
           AcquireLock [''cron'', ''B''] False 600, LogInfo [''cron'', ''B''],
           StartAFF4Flow
             ((flow_runner_args example_args)\<lparr>base_session_id := Some [''cron'', ''B'']\<rparr>)
             (flow_args example_args) [''cron'', ''B'', ''F:0'']])"
proof -
  let ?w = "store_world [([''cron'', ''C''], new_CronJob [''cron'', ''C'']),
                     ([''cron'', ''B''], idle_job ''B'')] []"
  let ?w1 = "(store_world [([''cron'', ''C''], new_CronJob [''cron'', ''C'']),
                    ([''cron'', ''B''], idle_job ''B'')] [([''cron'', ''C''], 1600)])
        \<lparr>journal := [AcquireLock [''cron'', ''C''] False 600]\<rparr>"
  let ?j = "(new_CronJob [''cron'', ''C''])\<lparr>locked := True\<rparr>"
  let ?w2 = "(store_world [([''cron'', ''C''], new_CronJob [''cron'', ''C'']),
                    ([''cron'', ''B''], idle_job ''B'')] [([''cron'', ''C''], 1600)])
        \<lparr>journal := [AcquireLock [''cron'', ''C''] False 600, LogInfo [''cron'', ''C'']]\<rparr>"
  have o: "OpenWithLock [''cron'', ''C''] 600 ?w = (Inr ?j, ?w1)"
    by (simp add: OpenWithLock_def lease_held_def store_world_def new_CronJob_def emit_def)
  have r: "Run False ?j (emit (LogInfo (urn ?j)) ?w1) = (Inl AttributeError, ?j, ?w2)"
    by (simp add: store_world_def new_CronJob_def run_defs)
  have rest: "RunOnce_loop False [[''cron'', ''B'']]
      (Close ?j (emit (IncrementCounter ''cron_internal_error'' [])
         (emit (LogException (urn ?j) AttributeError) ?w2))) =
    (Inr (),
     (store_world
        [([''cron'', ''C''], new_CronJob [''cron'', ''C'']),
         ([''cron'', ''B''],
          (idle_job ''B'')\<lparr>CURRENT_FLOW_URN := Some [''cron'', ''B'', ''F:0''],
             LAST_RUN_TIME := Some 1000\<rparr>)] [])
       \<lparr>flows := [([''cron'', ''B'', ''F:0''], \<lparr>state = RUNNING, created = 1000\<rparr>)],
        next_session := 1,
        journal :=
          [AcquireLock [''cron'', ''C''] False 600, LogInfo [''cron'', ''C''],
           LogException [''cron'', ''C''] AttributeError,
           IncrementCounter ''cron_internal_error'' [],
           AcquireLock [''cron'', ''B''] False 600, LogInfo [''cron'', ''B''],
           StartAFF4Flow
             ((flow_runner_args example_args)\<lparr>base_session_id := Some [''cron'', ''B'']\<rparr>)
             (flow_args example_args) [''cron'', ''B'', ''F:0'']]\<rparr>)"
    by (simp add: OpenWithLock_def lease_held_def store_world_def new_CronJob_def
        idle_job_def example_args_def Close_def run_defs)
  from RunOnce_contains_exceptions [OF o r, of "[[''cron'', ''B'']]"]
  have "RunOnce_loop False [[''cron'', ''C''], [''cron'', ''B'']] ?w =
      RunOnce_loop False [[''cron'', ''B'']]
        (Close ?j (emit (IncrementCounter ''cron_internal_error'' [])
           (emit (LogException (urn ?j) AttributeError) ?w2)))"
    by (rule conjunct1)
  with o r rest show ?thesis
    by (simp del: RunOnce_loop.simps)
qed

subsection \<open>Creating a job again\<close>

text \<open>
  Claim C8. After \<^verbatim>\<open>CreateJob\<close> with a given \<open>job_id\<close> has stored arguments whose
  start time is set (not 0: the code tests its truth value), a second \<^verbatim>\<open>CreateJob\<close>
  with the same \<open>job_id\<close>, at any later time, stores the arguments built from the second
  call with the start time of the first; when the second call differs from the first in
  the frequency only, the stored arguments are the old ones with the new periodicity.
\<close>

theorem CreateJob_again_keeps_start_time:
  assumes "job_id \<noteq> []"
    and "CreateJob cron_args (Some job_id) enabled w = (id1, w1)"
    and "stored_args w1 job_id = Some args1"
    and "start_time args1 \<noteq> 0"
    and "CreateJob cron_args2 (Some job_id) enabled2 (w1\<lparr>clock := later\<rparr>) = (id2, w2)"
  shows "id1 = job_id \<and> id2 = job_id \<and>
    stored_args w2 job_id =
      Some ((new_cron_args cron_args2 (w1\<lparr>clock := later\<rparr>))\<lparr>start_time := start_time args1\<rparr>) \<and>
    (cron_args2 = cron_args\<lparr>arg_frequency := p\<rparr> \<longrightarrow>
       stored_args w2 job_id = Some (args1\<lparr>periodicity := p\<rparr>))"
proof -
  from assms(2) CreateJob_given_id [OF assms(1), of cron_args enabled w]
  have id1: "id1 = job_id" and w1: "w1 = snd (CreateJob cron_args (Some job_id) enabled w)"
    by auto
  from assms(5) CreateJob_given_id [OF assms(1), of cron_args2 enabled2 "w1\<lparr>clock := later\<rparr>"]
  have id2: "id2 = job_id"
    and w2: "w2 = snd (CreateJob cron_args2 (Some job_id) enabled2 (w1\<lparr>clock := later\<rparr>))"
    by auto
  have s2: "stored_args w2 job_id =
      Some ((new_cron_args cron_args2 (w1\<lparr>clock := later\<rparr>))\<lparr>start_time := start_time args1\<rparr>)"
    unfolding w2 by (simp add: stored_args_CreateJob [OF assms(1)] assms(3,4))
  from assms(3) have "\<exists>s. args1 = (new_cron_args cron_args w)\<lparr>start_time := s\<rparr>"
    unfolding w1 stored_args_CreateJob [OF assms(1)]
    by (auto simp: new_cron_args_def split: option.splits if_splits)
  then obtain s where a1: "args1 = (new_cron_args cron_args w)\<lparr>start_time := s\<rparr>" ..
  have "cron_args2 = cron_args\<lparr>arg_frequency := p\<rparr> \<longrightarrow>
       stored_args w2 job_id = Some (args1\<lparr>periodicity := p\<rparr>)"
    by (simp add: s2 a1 new_cron_args_def)
  with id1 id2 s2 show ?thesis by simp
qed

theorem CreateJob_again_keeps_start_time_witness:
  "''A'' \<noteq> [] \<and>
   CreateJob example_create_args (Some ''A'') True (store_world [] []) =
     (''A'',
      store_world
        [([''cron'', ''A''],
          (idle_job ''A'')\<lparr>CRON_ARGS := Some (example_args\<lparr>start_time := 1000\<rparr>)\<rparr>)] []) \<and>
   stored_args
     (store_world
        [([''cron'', ''A''],
          (idle_job ''A'')\<lparr>CRON_ARGS := Some (example_args\<lparr>start_time := 1000\<rparr>)\<rparr>)] [])
     ''A'' = Some (example_args\<lparr>start_time := 1000\<rparr>) \<and>
   start_time (example_args\<lparr>start_time := 1000\<rparr>) \<noteq> 0 \<and>
   stored_args
     (snd (CreateJob (example_create_args\<lparr>arg_frequency := 7200\<rparr>) (Some ''A'') True
        ((store_world
           [([''cron'', ''A''],
             (idle_job ''A'')\<lparr>CRON_ARGS := Some (example_args\<lparr>start_time := 1000\<rparr>)\<rparr>)] [])
         \<lparr>clock := 5000\<rparr>)))
     ''A'' = Some (example_args\<lparr>start_time := 1000, periodicity := 7200\<rparr>)"
proof -
  let ?w1 = "store_world
        [([''cron'', ''A''],
          (idle_job ''A'')\<lparr>CRON_ARGS := Some (example_args\<lparr>start_time := 1000\<rparr>)\<rparr>)] []"
  let ?a2 = "example_create_args\<lparr>arg_frequency := 7200\<rparr>"
  have n: "''A'' \<noteq> []" by simp
  have c1: "CreateJob example_create_args (Some ''A'') True (store_world [] []) = (''A'', ?w1)"
    by (simp add: CreateJob_def Let_def Create_def Close_def new_CronJob_def new_cron_args_def
        default_start_time_def store_world_def idle_job_def example_args_def
        example_create_args_def Add_def CRON_JOBS_PATH_def)
  have s1: "stored_args ?w1 ''A'' = Some (example_args\<lparr>start_time := 1000\<rparr>)"
    by (simp add: stored_args_def ReadJob_def store_world_def Add_def CRON_JOBS_PATH_def)
  have t1: "start_time (example_args\<lparr>start_time := 1000\<rparr>) \<noteq> 0" by simp
  have c2: "CreateJob ?a2 (Some ''A'') True (?w1\<lparr>clock := 5000\<rparr>) =
      (fst (CreateJob ?a2 (Some ''A'') True (?w1\<lparr>clock := 5000\<rparr>)),
       snd (CreateJob ?a2 (Some ''A'') True (?w1\<lparr>clock := 5000\<rparr>)))"
    by simp
  from CreateJob_again_keeps_start_time [OF n c1 s1 t1 c2, of 7200]
  have "stored_args (snd (CreateJob ?a2 (Some ''A'') True (?w1\<lparr>clock := 5000\<rparr>))) ''A'' =
      Some (example_args\<lparr>start_time := 1000, periodicity := 7200\<rparr>)"
    by (simp add: new_cron_args_def example_args_def example_create_args_def)
  with n c1 s1 t1 show ?thesis by simp
qed

subsection \<open>Reaping a finished run\<close>

text \<open>
  Claim C9, as amended. When a locked job tracks a run that the engine reports as
  finished, the evaluation records the status \<open>ERROR\<close> or \<open>OK\<close> according to the
  flow's state, increments the failure counter on \<open>ERROR\<close>, records the latency
  \<open>now - last_run_time\<close> when the state is not an error, clears the handle, and then goes
  through the due-time logic on that record. At the end of the evaluation the status
  recorded is the newest one, the counter or latency event is in the journal, and the
  handle is unset unless this same evaluation started a new run.
\<close>

theorem Run_reaps_finished_run:
  assumes "locked self" "CURRENT_FLOW_URN self = Some h" "OpenFlow w h = Some f"
    "state f \<noteq> RUNNING" "LAST_RUN_TIME self = Some t"
  shows "Run force self w =
      Run_start force
        (self\<lparr>LAST_RUN_STATUS :=
                LAST_RUN_STATUS self @ [if state f = FLOW_ERROR then ERROR else OK],
              CURRENT_FLOW_URN := None\<rparr>)
        (emit (if state f = FLOW_ERROR
               then IncrementCounter ''cron_job_failure'' [Basename (urn self)]
               else RecordEvent ''cron_job_latency'' (clock w - t) [Basename (urn self)]) w) \<and>
    (case Run force self w of
       (r, self', w') \<Rightarrow>
         LAST_RUN_STATUS self' =
           LAST_RUN_STATUS self @ [if state f = FLOW_ERROR then ERROR else OK] \<and>
         (if state f = FLOW_ERROR
          then IncrementCounter ''cron_job_failure'' [Basename (urn self)]
          else RecordEvent ''cron_job_latency'' (clock w - t) [Basename (urn self)])
           \<in> set (journal w') \<and>
         (CURRENT_FLOW_URN self' = None \<and> started w' = started w \<or>
          (\<exists>u. CURRENT_FLOW_URN self' = Some u \<and> started w' = started w @ [u])))"
proof -
  let ?st = "if state f = FLOW_ERROR then ERROR else OK"
  let ?ev = "if state f = FLOW_ERROR
             then IncrementCounter ''cron_job_failure'' [Basename (urn self)]
             else RecordEvent ''cron_job_latency'' (clock w - t) [Basename (urn self)]"
  let ?self1 = "self\<lparr>LAST_RUN_STATUS := LAST_RUN_STATUS self @ [?st], CURRENT_FLOW_URN := None\<rparr>"
  have eq: "Run force self w = Run_start force ?self1 (emit ?ev w)"
    using assms(1)
    by (simp add: Run_def KillOldFlows_finished [OF assms(2-4)]
        Run_finished_terminal [OF assms(2-5)])
  obtain r self' w' where s: "Run_start force ?self1 (emit ?ev w) = (r, self', w')"
    by (cases "Run_start force ?self1 (emit ?ev w)") auto
  have "started (emit ?ev w) = started w"
    by (simp add: started_emit)
  with Run_start_outcome [OF s]
  have "LAST_RUN_STATUS self' = LAST_RUN_STATUS self @ [?st] \<and> ?ev \<in> set (journal w') \<and>
         (CURRENT_FLOW_URN self' = None \<and> started w' = started w \<or>
          (\<exists>u. CURRENT_FLOW_URN self' = Some u \<and> started w' = started w @ [u]))"
    by auto
  with eq s show ?thesis by simp
qed

theorem Run_reaps_finished_run_witness:
  "locked example_job \<and> CURRENT_FLOW_URN example_job = Some [''cron'', ''A'', ''F:0''] \<and>
   OpenFlow (example_world TERMINATED 500) [''cron'', ''A'', ''F:0''] =
     Some \<lparr>state = TERMINATED, created = 200\<rparr> \<and>
   LAST_RUN_TIME example_job = Some 200 \<and>
   Run False example_job (example_world TERMINATED 500) =
     (Inr (),
      example_job\<lparr>LAST_RUN_STATUS := [OK], CURRENT_FLOW_URN := None\<rparr>,
      (example_world TERMINATED 500)\<lparr>journal :=
         [RecordEvent ''cron_job_latency'' 300 [''A'']]\<rparr>)"
proof -
  have h: "locked example_job" "CURRENT_FLOW_URN example_job = Some [''cron'', ''A'', ''F:0'']"
    "OpenFlow (example_world TERMINATED 500) [''cron'', ''A'', ''F:0''] =
       Some \<lparr>state = TERMINATED, created = 200\<rparr>"
    "state \<lparr>state = TERMINATED, created = 200\<rparr> \<noteq> RUNNING"
    "LAST_RUN_TIME example_job = Some 200"
    by (simp_all add: example_defs OpenFlow_def)
  have s: "Run_start False
        (example_job\<lparr>LAST_RUN_STATUS :=
            LAST_RUN_STATUS example_job @
              [if state \<lparr>state = TERMINATED, created = 200\<rparr> = FLOW_ERROR then ERROR else OK],
           CURRENT_FLOW_URN := None\<rparr>)
        (emit (if state \<lparr>state = TERMINATED, created = 200\<rparr> = FLOW_ERROR
               then IncrementCounter ''cron_job_failure'' [Basename (urn example_job)]
               else RecordEvent ''cron_job_latency'' (clock (example_world TERMINATED 500) - 200)
                      [Basename (urn example_job)])
           (example_world TERMINATED 500)) =
     (Inr (),
      example_job\<lparr>LAST_RUN_STATUS := [OK], CURRENT_FLOW_URN := None\<rparr>,
      (example_world TERMINATED 500)\<lparr>journal :=
         [RecordEvent ''cron_job_latency'' 300 [''A'']]\<rparr>)"
    by (simp add: example_defs Run_start_def DueToRun_def Expiry_def emit_def Basename_def)
  from Run_reaps_finished_run [OF h, of False]
  have "Run False example_job (example_world TERMINATED 500) =
     (Inr (),
      example_job\<lparr>LAST_RUN_STATUS := [OK], CURRENT_FLOW_URN := None\<rparr>,
      (example_world TERMINATED 500)\<lparr>journal :=
         [RecordEvent ''cron_job_latency'' 300 [''A'']]\<rparr>)"
    by (simp only: s)
  with h show ?thesis by simp
qed

text \<open>
  Claim C9 as stated has the latency recorded in the error case as well. The latency is
  recorded in the \<^verbatim>\<open>else\<close> branch only: for a failed flow the journal holds the
  failure counter and no latency event.
\<close>

theorem Run_failed_run_counterexample:
  "locked example_job \<and> CURRENT_FLOW_URN example_job = Some [''cron'', ''A'', ''F:0''] \<and>
   OpenFlow (example_world FLOW_ERROR 500) [''cron'', ''A'', ''F:0''] =
     Some \<lparr>state = FLOW_ERROR, created = 200\<rparr> \<and>
   LAST_RUN_TIME example_job = Some 200 \<and>
   Run False example_job (example_world FLOW_ERROR 500) =
     (Inr (),
      example_job\<lparr>LAST_RUN_STATUS := [ERROR], CURRENT_FLOW_URN := None\<rparr>,
      (example_world FLOW_ERROR 500)\<lparr>journal :=
         [IncrementCounter ''cron_job_failure'' [''A'']]\<rparr>)"
  by (simp add: example_defs run_defs)

subsection \<open>Pruning old runs\<close>

text \<open>
  Claim C10. \<^verbatim>\<open>DeleteOldRuns\<close> without a cutoff raises \<^verbatim>\<open>ValueError\<close> and changes
  nothing. With a cutoff, in a store with one flow per URN, it removes exactly the runs
  of the job created strictly before the cutoff (every other flow stays, in particular
  the job's runs at or after the cutoff), asks the queue manager to destroy the flow
  states of the removed runs and the store to delete them, and returns their number.
\<close>

theorem DeleteOldRuns_prunes:
  assumes "distinct (map fst (flows w))"
  shows "DeleteOldRuns job None w = (Inl (ValueError ''cutoff_timestamp can't be None''), w) \<and>
    (case DeleteOldRuns job (Some cutoff) w of
       (r, w') \<Rightarrow>
         r = Inr (length (filter (old_run (urn job) cutoff) (flows w))) \<and>
         flows w' = filter (\<lambda>x. \<not> old_run (urn job) cutoff x) (flows w) \<and>
         journal w' = journal w @
           [MultiDestroyFlowStates (map fst (filter (old_run (urn job) cutoff) (flows w))),
            MultiDelete (map fst (filter (old_run (urn job) cutoff) (flows w)))])"
  by (simp add: DeleteOldRuns_def Let_def ListChildren_age_filter emit_def
      filter_not_listed [OF assms, simplified])

theorem DeleteOldRuns_prunes_witness:
  "distinct (map fst (flows history_world)) \<and>
   DeleteOldRuns example_job None history_world =
     (Inl (ValueError ''cutoff_timestamp can't be None''), history_world) \<and>
   DeleteOldRuns example_job (Some 200) history_world =
     (Inr 1,
      history_world
        \<lparr>flows :=
           [([''cron'', ''A'', ''F:1''], \<lparr>state = TERMINATED, created = 200\<rparr>),
            ([''cron'', ''B'', ''F:2''], \<lparr>state = TERMINATED, created = 50\<rparr>)],
         journal :=
           [MultiDestroyFlowStates [[''cron'', ''A'', ''F:0'']],
            MultiDelete [[''cron'', ''A'', ''F:0'']]]\<rparr>)"
proof -
  have d: "distinct (map fst (flows history_world))"
    by (simp add: history_world_def)
  have e: "DeleteOldRuns example_job (Some 200) history_world =
      (fst (DeleteOldRuns example_job (Some 200) history_world),
       history_world
         \<lparr>flows := flows (snd (DeleteOldRuns example_job (Some 200) history_world)),
          journal := journal (snd (DeleteOldRuns example_job (Some 200) history_world))\<rparr>)"
    by (simp add: DeleteOldRuns_def Let_def emit_def)
  from DeleteOldRuns_prunes [OF d, of example_job 200] d show ?thesis
    by (subst e) (simp add: history_world_def example_job_def old_run_def split: prod.splits)
qed

end
